theory Spec2Isabelle
  imports Complex_Main "HOL-Library.Multiset" "HOL-Library.Log_Nat"
begin

section \<open>Platform primitives used by App.jsx\<close>

subsection \<open>Calendar dates (the JavaScript Date object)\<close>

text \<open>
  App.jsx computes every date with the expression
  \<^verbatim>\<open>new Date(start.getTime() + (k - 1) * 86400000).toISOString().split('T')[0]\<close>
  where \<^verbatim>\<open>start = new Date(s)\<close> for a string \<open>s\<close>. A time value is a number of
  milliseconds since 1970-01-01 UTC, or NaN (an invalid date), written \<open>None\<close> here.
  \<^verbatim>\<open>toISOString\<close> raises RangeError on an invalid date.

  The proleptic Gregorian calendar is computed in years that start on 1 March, so that the
  leap day comes last: \<open>year_start Y\<close> is the number of days from 0000-03-01 to 1 March
  of year \<open>Y\<close>, and 1970-01-01 is day 719468 of that count. The year of a day number is
  estimated from the mean length of a year (146097 days in 400 years) and corrected by one
  where the estimate is off.
\<close>

datatype error = RangeError

definition msPerDay :: int where
  "msPerDay = 86400000"

definition maxTime :: int where
  "maxTime = 8640000000000000"

definition year_start :: "int \<Rightarrow> int" where
  "year_start Y = 365 * Y + Y div 4 - Y div 100 + Y div 400"

definition month_start :: "int \<Rightarrow> int" where
  "month_start mp = (153 * mp + 2) div 5"

definition month_pos :: "int \<Rightarrow> int" where
  "month_pos doy = (5 * doy + 2) div 153"

definition days_from_civil :: "int \<Rightarrow> int \<Rightarrow> int \<Rightarrow> int" where
  "days_from_civil y m d =
     (let Y = (if m \<le> 2 then y - 1 else y);
          mp = (if m > 2 then m - 3 else m + 9)
      in year_start Y + month_start mp + d - 1 - 719468)"

definition march_year :: "int \<Rightarrow> int" where
  "march_year g =
     (let Y0 = (400 * g) div 146097 in
      if g < year_start Y0 then Y0 - 1
      else if year_start (Y0 + 1) \<le> g then Y0 + 1
      else Y0)"

definition civil_from_days :: "int \<Rightarrow> int \<times> int \<times> int" where
  "civil_from_days z =
     (let g = z + 719468;
          Y = march_year g;
          doy = g - year_start Y;
          mp = month_pos doy;
          m = (if mp < 10 then mp + 3 else mp - 9)
      in (if m \<le> 2 then Y + 1 else Y, m, doy - month_start mp + 1))"

definition leap_year :: "int \<Rightarrow> bool" where
  "leap_year y = (y mod 4 = 0 \<and> (y mod 100 \<noteq> 0 \<or> y mod 400 = 0))"

definition days_in_month :: "int \<Rightarrow> int \<Rightarrow> int" where
  "days_in_month y m =
     (if m = 2 then (if leap_year y then 29 else 28)
      else if m = 4 \<or> m = 6 \<or> m = 9 \<or> m = 11 then 30 else 31)"

definition digit_char :: "int \<Rightarrow> char" where
  "digit_char n = char_of (48 + n mod 10)"

definition digit_of :: "char \<Rightarrow> int option" where
  "digit_of c =
     (let n = (of_char c :: int) in if 48 \<le> n \<and> n \<le> 57 then Some (n - 48) else None)"

text \<open>\<open>pad w k\<close>: the last \<open>w\<close> decimal digits of \<open>k\<close>, with leading zeros.\<close>

fun pad :: "nat \<Rightarrow> int \<Rightarrow> string" where
  "pad 0 k = []"
| "pad (Suc w) k = pad w (k div 10) @ [digit_char k]"

text \<open>\<open>digits_val acc s\<close>: the number written by the digit string \<open>s\<close>, after \<open>acc\<close>.\<close>

fun digits_val :: "int \<Rightarrow> string \<Rightarrow> int option" where
  "digits_val acc [] = Some acc"
| "digits_val acc (c # cs) =
     (case digit_of c of None \<Rightarrow> None | Some v \<Rightarrow> digits_val (10 * acc + v) cs)"

text \<open>\<^verbatim>\<open>new Date(t)\<close> for a number: TimeClip turns an out-of-range time into NaN.\<close>

definition TimeClip :: "int \<Rightarrow> int option" where
  "TimeClip t = (if \<bar>t\<bar> \<le> maxTime then Some t else None)"

definition make_date :: "int \<Rightarrow> int option \<Rightarrow> int option \<Rightarrow> int option" where
  "make_date y mo da =
     (case (mo, da) of
        (Some m, Some d) \<Rightarrow>
          (if 1 \<le> m \<and> m \<le> 12 \<and> 1 \<le> d \<and> d \<le> days_in_month y m
           then TimeClip (days_from_civil y m d * msPerDay) else None)
      | _ \<Rightarrow> None)"

text \<open>
  \<^verbatim>\<open>new Date(s)\<close> for a string, restricted to the date-only ISO form that a date input
  and \<^verbatim>\<open>toISOString().split('T')[0]\<close> produce: \<open>YYYY-MM-DD\<close>, or a sign and a six-digit
  year. Such a string denotes midnight UTC. Every other string is taken to be an invalid
  date; this is exact for the empty string, which a cleared date input delivers.
\<close>

definition Date_parse :: "string \<Rightarrow> int option" where
  "Date_parse s =
     (if length s = 10 \<and> s ! 4 = CHR ''-'' \<and> s ! 7 = CHR ''-'' then
        (case digits_val 0 (take 4 s) of
           None \<Rightarrow> None
         | Some y \<Rightarrow> make_date y (digits_val 0 (take 2 (drop 5 s)))
                       (digits_val 0 (drop 8 s)))
      else if length s = 13 \<and> (s ! 0 = CHR ''+'' \<or> s ! 0 = CHR ''-'')
              \<and> s ! 7 = CHR ''-'' \<and> s ! 10 = CHR ''-'' then
        (case digits_val 0 (take 6 (drop 1 s)) of
           None \<Rightarrow> None
         | Some y \<Rightarrow>
             (if s ! 0 = CHR ''-'' \<and> y = 0 then None
              else make_date (if s ! 0 = CHR ''-'' then - y else y)
                     (digits_val 0 (take 2 (drop 8 s))) (digits_val 0 (drop 11 s))))
      else None)"

text \<open>\<^verbatim>\<open>new Date(t).toISOString().split('T')[0]\<close> for a valid time value \<open>t\<close>.\<close>

definition toISODate :: "int \<Rightarrow> string" where
  "toISODate t =
     (case civil_from_days (t div msPerDay) of
        (y, m, d) \<Rightarrow>
          (if 0 \<le> y \<and> y \<le> 9999 then pad 4 y
           else (if y < 0 then ''-'' else ''+'') @ pad 6 \<bar>y\<bar>)
          @ ''-'' @ pad 2 m @ ''-'' @ pad 2 d)"

text \<open>
  The date of day number \<open>k\<close> of a trip that starts at \<open>start\<close>: the expression shared by
  \<^verbatim>\<open>handleDetailChange\<close>, \<^verbatim>\<open>addDay\<close> and \<^verbatim>\<open>removeDay\<close>. NaN propagates through the
  addition, and \<^verbatim>\<open>toISOString\<close> raises on it.
\<close>

definition dayDate :: "string \<Rightarrow> int \<Rightarrow> error + string" where
  "dayDate start k =
     (case Date_parse start of
        None \<Rightarrow> Inl RangeError
      | Some t \<Rightarrow>
          (case TimeClip (t + (k - 1) * 86400000) of
             None \<Rightarrow> Inl RangeError
           | Some t' \<Rightarrow> Inr (toISODate t')))"

section \<open>The trip document\<close>

text \<open>
  The objects of \<^verbatim>\<open>defaultItinerary\<close>. Identifiers come from \<^verbatim>\<open>crypto.randomUUID()\<close>
  and are strings; day numbers are JavaScript numbers holding integers.
\<close>

record Activity =
  aid :: string
  time :: string
  description :: string

record DayPlan =
  did :: string
  day :: int
  date :: string
  activities :: "Activity list"

subsection \<open>Numbers of the budget\<close>

text \<open>
  A budget amount is a JavaScript number: NaN, an infinity, or a finite IEEE 754 double.
  A finite double is kept as the rational number it stands for; the sign of zero is not
  kept (no expression of the budget code tells the two zeros apart).
\<close>

datatype jsnum = NaN | PInf | NInf | Num rat

text \<open>
  Rounding of an exact value to the nearest double, ties to the even significand
  (roundTiesToEven). \<open>ilog2 a\<close> is the binary exponent \<open>e\<close> of \<open>a > 0\<close>: the power
  \<open>2 powi e\<close> is at most \<open>a\<close> and \<open>2 powi (e + 1)\<close> is above. A significand has 53 bits,
  so the doubles of exponent \<open>e\<close> are \<open>2 powi (e - 52)\<close> apart; below exponent -1022 the
  doubles are subnormal and keep the spacing of that exponent. A value that rounds to
  \<open>2 powi 1024\<close> or more becomes an infinity: this is a rounded significand of
  \<open>2 powi 53\<close> at exponent 1023, or any larger exponent.
\<close>

definition round_half_even :: "rat \<Rightarrow> int" where
  "round_half_even q =
     (let f = \<lfloor>q\<rfloor>; r = q - of_int f
      in if r < 1 / 2 then f
         else if 1 / 2 < r then f + 1
         else if even f then f else f + 1)"

definition ilog2 :: "rat \<Rightarrow> int" where
  "ilog2 a =
     (let (p, q) = quotient_of a;
          e = bitlen p - bitlen q
      in if a < 2 powi e then e - 1 else e)"

definition to_double :: "rat \<Rightarrow> jsnum" where
  "to_double x =
     (if x = 0 then Num 0
      else
        (let a = \<bar>x\<bar>;
             e = max (ilog2 a) (- 1022);
             ulp = 2 powi (e - 52);
             m = round_half_even (a / ulp)
         in if 1023 < e \<or> (e = 1023 \<and> m = 9007199254740992)
            then (if x < 0 then NInf else PInf)
            else Num (if x < 0 then - (of_int m * ulp) else of_int m * ulp)))"




text \<open>Truthiness of a number, and \<^verbatim>\<open>x || y\<close> on numbers.\<close>

fun truthy :: "jsnum \<Rightarrow> bool" where
  "truthy NaN = False"
| "truthy (Num a) = (a \<noteq> 0)"
| "truthy x = True"

definition js_or :: "jsnum \<Rightarrow> jsnum \<Rightarrow> jsnum" where
  "js_or x y = (if truthy x then x else y)"

text \<open>
  \<^verbatim>\<open>parseFloat(s)\<close>: skip leading white space, then read the longest prefix that is a
  decimal literal (sign, \<^verbatim>\<open>Infinity\<close> or digits with an optional fraction, optional
  exponent); NaN when there is none. The value of the literal is rounded to the nearest
  double, as engines do (the standard also lets an engine drop the digits after the
  twentieth significant one).
  Characters are 8-bit here, so white space is the ASCII white space.
\<close>

definition is_ws :: "char \<Rightarrow> bool" where
  "is_ws c = (c \<in> set [CHR '' '', CHR 0x09, CHR 0x0A, CHR 0x0B, CHR 0x0C, CHR 0x0D])"

definition is_digit :: "char \<Rightarrow> bool" where
  "is_digit c = (digit_of c \<noteq> None)"

definition digits_rat :: "string \<Rightarrow> rat" where
  "digits_rat ds = (case digits_val 0 ds of Some n \<Rightarrow> of_int n | None \<Rightarrow> 0)"

text \<open>The exponent part at the head of \<open>s\<close>, as a power of ten; 1 when there is none.\<close>

definition exponent :: "string \<Rightarrow> rat" where
  "exponent s =
     (case s of
        e # r \<Rightarrow>
          (if e = CHR ''e'' \<or> e = CHR ''E'' then
             (let (neg, r') = (case r of
                                 c # r'' \<Rightarrow> (if c = CHR ''-'' then (True, r'')
                                              else if c = CHR ''+'' then (False, r'')
                                              else (False, r))
                               | [] \<Rightarrow> (False, r));
                  ds = takeWhile is_digit r'
              in if ds = [] then 1
                 else (case digits_val 0 ds of
                         Some n \<Rightarrow> (if neg then 1 / 10 ^ nat n else 10 ^ nat n)
                       | None \<Rightarrow> 1))
           else 1)
      | [] \<Rightarrow> 1)"

definition parseFloat :: "string \<Rightarrow> jsnum" where
  "parseFloat s =
     (let s1 = dropWhile is_ws s;
          (neg, s2) = (case s1 of
                         c # r \<Rightarrow> (if c = CHR ''-'' then (True, r)
                                   else if c = CHR ''+'' then (False, r)
                                   else (False, s1))
                       | [] \<Rightarrow> (False, s1))
      in if take 8 s2 = ''Infinity'' then (if neg then NInf else PInf)
         else
           (let ip = takeWhile is_digit s2;
                s3 = dropWhile is_digit s2;
                (fp, s4) = (case s3 of
                              c # r \<Rightarrow> (if c = CHR ''.''
                                        then (takeWhile is_digit r, dropWhile is_digit r)
                                        else ([], s3))
                            | [] \<Rightarrow> ([], s3))
            in if ip = [] \<and> fp = [] then NaN
               else
                 (let m = (digits_rat ip + digits_rat fp / 10 ^ length fp) * exponent s4
                  in to_double (if neg then - m else m))))"

text \<open>
  The budget object has the string property \<^verbatim>\<open>currency\<close> and one object per category.
  Objects are association lists in the order in which the object enumerates its own
  properties: the keys that are array indices first, in ascending numeric order, then the
  other keys in the order of their creation.
\<close>

type_synonym category = "(string \<times> jsnum) list"

record BudgetSheet =
  currency :: string
  categories :: "(string \<times> category) list"

record TripDocument =
  title :: string
  destination :: string
  startDate :: string
  endDate :: string
  notesText :: string
  itinerary :: "DayPlan list"
  budget :: BudgetSheet

text \<open>
  An array index is a key that is the decimal numeral, without leading zeros, of an
  integer from 0 to 4294967294.
\<close>

definition array_index :: "string \<Rightarrow> int option" where
  "array_index k =
     (if k \<noteq> [] \<and> (length k = 1 \<or> hd k \<noteq> CHR ''0'') then
        (case digits_val 0 k of
           Some n \<Rightarrow> (if n \<le> 4294967294 then Some n else None)
         | None \<Rightarrow> None)
      else None)"

definition index_below :: "int \<Rightarrow> string \<Rightarrow> bool" where
  "index_below i k = (case array_index k of Some j \<Rightarrow> j < i | None \<Rightarrow> False)"

text \<open>
  \<^verbatim>\<open>{ ...obj, [k]: v }\<close> on an association list. The spread copy has the properties of
  \<open>obj\<close> in their order. An existing key keeps its position and takes the new value. A
  new key that is an array index comes after the smaller array indices and before
  every other key; any other new key comes last.
\<close>

fun replace_prop :: "string \<Rightarrow> 'v \<Rightarrow> (string \<times> 'v) list \<Rightarrow> (string \<times> 'v) list" where
  "replace_prop k v [] = []"
| "replace_prop k v (p # ps) = (if fst p = k then (k, v) # ps else p # replace_prop k v ps)"

definition set_prop :: "string \<Rightarrow> 'v \<Rightarrow> (string \<times> 'v) list \<Rightarrow> (string \<times> 'v) list" where
  "set_prop k v ps =
     (if k \<in> set (map fst ps) then replace_prop k v ps
      else
        (case array_index k of
           Some i \<Rightarrow> takeWhile (\<lambda>p. index_below i (fst p)) ps
                     @ (k, v) # dropWhile (\<lambda>p. index_below i (fst p)) ps
         | None \<Rightarrow> ps @ [(k, v)]))"

section \<open>The mutation handlers of the App component\<close>

text \<open>
  Each handler passes an updater \<^verbatim>\<open>prev => newState\<close> to \<^verbatim>\<open>setTripDetails\<close>; the
  functions below are these updaters. An updater that raises leaves no new state:
  the result is \<open>Inl\<close> of the error.
\<close>

subsection \<open>handleDetailChange (the spec's setField)\<close>

text \<open>The names of the five inputs bound to \<^verbatim>\<open>handleDetailChange\<close>.\<close>

datatype detail = Title | Destination | StartDate | EndDate | Notes

definition set_detail :: "detail \<Rightarrow> string \<Rightarrow> TripDocument \<Rightarrow> TripDocument" where
  "set_detail name v prev =
     (case name of
        Title \<Rightarrow> prev\<lparr>title := v\<rparr>
      | Destination \<Rightarrow> prev\<lparr>destination := v\<rparr>
      | StartDate \<Rightarrow> prev\<lparr>startDate := v\<rparr>
      | EndDate \<Rightarrow> prev\<lparr>endDate := v\<rparr>
      | Notes \<Rightarrow> prev\<lparr>notesText := v\<rparr>)"

text \<open>The \<^verbatim>\<open>map\<close> over the days; the first date that cannot be formatted raises.\<close>

fun redate :: "string \<Rightarrow> DayPlan list \<Rightarrow> error + DayPlan list" where
  "redate v [] = Inr []"
| "redate v (d # ds) =
     (case dayDate v (day d) of
        Inl e \<Rightarrow> Inl e
      | Inr newDate \<Rightarrow>
          (case redate v ds of
             Inl e \<Rightarrow> Inl e
           | Inr ds' \<Rightarrow> Inr (d\<lparr>date := newDate\<rparr> # ds')))"

definition handleDetailChange :: "detail \<Rightarrow> string \<Rightarrow> TripDocument \<Rightarrow> error + TripDocument" where
  "handleDetailChange name v prev =
     (let newState = set_detail name v prev in
      if name = StartDate \<and> length (itinerary prev) > 0 then
        (case redate v (itinerary prev) of
           Inl e \<Rightarrow> Inl e
         | Inr ds \<Rightarrow> Inr (newState\<lparr>itinerary := ds\<rparr>))
      else Inr newState)"

subsection \<open>Activities\<close>

datatype activity_field = Time | Description

definition set_activity_field :: "activity_field \<Rightarrow> string \<Rightarrow> Activity \<Rightarrow> Activity" where
  "set_activity_field f v a = (case f of Time \<Rightarrow> a\<lparr>time := v\<rparr> | Description \<Rightarrow> a\<lparr>description := v\<rparr>)"

definition handleActivityChange ::
  "string \<Rightarrow> string \<Rightarrow> activity_field \<Rightarrow> string \<Rightarrow> TripDocument \<Rightarrow> TripDocument" where
  "handleActivityChange dayId activityId field v prev =
     prev\<lparr>itinerary :=
       map (\<lambda>d. if did d = dayId
                 then d\<lparr>activities :=
                        map (\<lambda>a. if aid a = activityId then set_activity_field field v a else a)
                            (activities d)\<rparr>
                 else d)
           (itinerary prev)\<rparr>"

text \<open>The first argument is the identifier that \<^verbatim>\<open>crypto.randomUUID()\<close> returns.\<close>

definition addActivity :: "string \<Rightarrow> string \<Rightarrow> TripDocument \<Rightarrow> TripDocument" where
  "addActivity uuid dayId prev =
     prev\<lparr>itinerary :=
       map (\<lambda>d. if did d = dayId
                 then d\<lparr>activities :=
                        activities d @ [\<lparr>aid = uuid, time = [], description = []\<rparr>]\<rparr>
                 else d)
           (itinerary prev)\<rparr>"

definition removeActivity :: "string \<Rightarrow> string \<Rightarrow> TripDocument \<Rightarrow> TripDocument" where
  "removeActivity dayId activityId prev =
     prev\<lparr>itinerary :=
       map (\<lambda>d. if did d = dayId
                 then d\<lparr>activities := filter (\<lambda>a. aid a \<noteq> activityId) (activities d)\<rparr>
                 else d)
           (itinerary prev)\<rparr>"

subsection \<open>Days\<close>

text \<open>\<open>dayUuid\<close> and \<open>activityUuid\<close> are the two identifiers drawn for the new day.\<close>

definition addDay :: "string \<Rightarrow> string \<Rightarrow> TripDocument \<Rightarrow> error + TripDocument" where
  "addDay dayUuid activityUuid prev =
     (let newDayNumber = int (length (itinerary prev)) + 1 in
      case dayDate (startDate prev) newDayNumber of
        Inl e \<Rightarrow> Inl e
      | Inr newDate \<Rightarrow>
          Inr (prev\<lparr>itinerary := itinerary prev @
                 [\<lparr>did = dayUuid, day = newDayNumber, date = newDate,
                   activities = [\<lparr>aid = activityUuid, time = ''09:00'',
                                  description = ''New Day Activity''\<rparr>]\<rparr>]\<rparr>))"

text \<open>
  The \<^verbatim>\<open>map\<close> of \<^verbatim>\<open>removeDay\<close> over the filtered days; \<open>dayIndex\<close> is the counter that
  the callback increments.
\<close>

fun renumber :: "string \<Rightarrow> int \<Rightarrow> DayPlan list \<Rightarrow> error + DayPlan list" where
  "renumber start dayIndex [] = Inr []"
| "renumber start dayIndex (d # ds) =
     (case dayDate start dayIndex of
        Inl e \<Rightarrow> Inl e
      | Inr newDate \<Rightarrow>
          (case renumber start (dayIndex + 1) ds of
             Inl e \<Rightarrow> Inl e
           | Inr ds' \<Rightarrow> Inr (d\<lparr>day := dayIndex, date := newDate\<rparr> # ds')))"

definition removeDay :: "string \<Rightarrow> TripDocument \<Rightarrow> error + TripDocument" where
  "removeDay dayId prev =
     (case renumber (startDate prev) 1 (filter (\<lambda>d. did d \<noteq> dayId) (itinerary prev)) of
        Inl e \<Rightarrow> Inl e
      | Inr newItinerary \<Rightarrow> Inr (prev\<lparr>itinerary := newItinerary\<rparr>))"

text \<open>A call of \<^verbatim>\<open>addDay\<close> or \<^verbatim>\<open>removeDay\<close>, and a sequence of them run in order.\<close>

datatype day_call = AddDay string string | RemoveDay string

fun run_call :: "day_call \<Rightarrow> TripDocument \<Rightarrow> error + TripDocument" where
  "run_call (AddDay dayUuid activityUuid) doc = addDay dayUuid activityUuid doc"
| "run_call (RemoveDay dayId) doc = removeDay dayId doc"

fun run_calls :: "day_call list \<Rightarrow> TripDocument \<Rightarrow> error + TripDocument" where
  "run_calls [] doc = Inr doc"
| "run_calls (c # cs) doc =
     (case run_call c doc of Inl e \<Rightarrow> Inl e | Inr doc' \<Rightarrow> run_calls cs doc')"

subsection \<open>handleBudgetChange (the spec's setBudgetCurrency and setBudgetAmount)\<close>

text \<open>
  \<open>name\<close> and \<open>v\<close> are the name and value of the input that fired; \<open>field\<close> is its
  \<^verbatim>\<open>data-field\<close> attribute, \<open>None\<close> when it has none. An absent category reads as
  \<^verbatim>\<open>undefined\<close>, whose spread copy is the empty object.
\<close>

definition handleBudgetChange ::
  "string \<Rightarrow> string \<Rightarrow> string option \<Rightarrow> TripDocument \<Rightarrow> TripDocument" where
  "handleBudgetChange name v field prev =
     (if name = ''currency'' then
        prev\<lparr>budget := (budget prev)\<lparr>currency := v\<rparr>\<rparr>
      else
        (case field of
           Some f \<Rightarrow>
             (if f \<noteq> [] then
                (let numericValue = js_or (parseFloat v) (Num 0);
                     old = (case map_of (categories (budget prev)) name of
                              Some c \<Rightarrow> c | None \<Rightarrow> [])
                 in prev\<lparr>budget := (budget prev)\<lparr>categories :=
                          set_prop name (set_prop f numericValue old)
                            (categories (budget prev))\<rparr>\<rparr>)
              else prev)
         | None \<Rightarrow> prev))"

text \<open>
  The two operations of the specification are this handler, fired by the currency
  selector and by an amount input.
\<close>

definition setBudgetCurrency :: "TripDocument \<Rightarrow> string \<Rightarrow> TripDocument" where
  "setBudgetCurrency doc c = handleBudgetChange ''currency'' c None doc"

definition setBudgetAmount ::
  "TripDocument \<Rightarrow> string \<Rightarrow> string \<Rightarrow> string \<Rightarrow> TripDocument" where
  "setBudgetAmount doc categoryKey field rawValue =
     handleBudgetChange categoryKey rawValue (Some field) doc"

text \<open>The amount stored under \<open>field\<close> of category \<open>key\<close>, if any.\<close>

definition amount :: "TripDocument \<Rightarrow> string \<Rightarrow> string \<Rightarrow> jsnum option" where
  "amount doc key field =
     (case map_of (categories (budget doc)) key of
        None \<Rightarrow> None
      | Some c \<Rightarrow> map_of c field)"

section \<open>The default document\<close>

text \<open>
  \<^verbatim>\<open>defaultItinerary\<close> is built once, when the module is loaded. It reads the clock three
  times (\<open>now1\<close>, \<open>now2\<close>, \<open>now3\<close>, in this order) and draws two identifiers.
\<close>

definition defaultItinerary ::
  "int \<Rightarrow> int \<Rightarrow> int \<Rightarrow> string \<Rightarrow> string \<Rightarrow> TripDocument" where
  "defaultItinerary now1 now2 now3 dayUuid activityUuid =
     \<lparr>title = ''Vigovia Trip Itinerary'',
      destination = ''Lisbon, Portugal'',
      startDate = toISODate now1,
      endDate = toISODate (now2 + 86400000 * 2),
      notesText = ''Remember to pack comfortable walking shoes and charge your camera battery!'',
      itinerary =
        [\<lparr>did = dayUuid, day = 1, date = toISODate now3,
          activities = [\<lparr>aid = activityUuid, time = ''09:00'',
                         description = ''Arrive at Airport''\<rparr>]\<rparr>],
      budget =
        \<lparr>currency = ''USD'',
         categories =
           [(''flights'', [(''estimated'', Num 600), (''actual'', Num 0)]),
            (''accommodation'', [(''estimated'', Num 500), (''actual'', Num 0)]),
            (''activities'', [(''estimated'', Num 400), (''actual'', Num 0)]),
            (''miscellaneous'', [(''estimated'', Num 100), (''actual'', Num 0)])]\<rparr>\<rparr>"

section \<open>The totals of the BudgetPlanner component\<close>






section \<open>Serialization\<close>

subsection \<open>JSON values and JSON text\<close>

text \<open>
  \<^verbatim>\<open>saveItinerary\<close> stores \<^verbatim>\<open>JSON.stringify(dataToSave)\<close> and the snapshot listener reads
  it back with \<^verbatim>\<open>JSON.parse\<close>. Both are modelled on the text: a value is a tree, an
  object is its members in the order of the text. A number is written with all its
  digits and read back without rounding, and characters are 8-bit.
\<close>

datatype json = JNull | JBool bool | JNum rat | JStr string | JArr "json list"
  | JObj "(string \<times> json) list"

text \<open>
  QuoteJSONString: the quotation mark, the backslash and the control characters are
  escaped, the others are copied.
\<close>

definition hex_char :: "int \<Rightarrow> char" where
  "hex_char n = (if n mod 16 < 10 then char_of (48 + n mod 16) else char_of (87 + n mod 16))"

definition hex_of :: "char \<Rightarrow> int option" where
  "hex_of c =
     (let n = (of_char c :: int) in
      if 48 \<le> n \<and> n \<le> 57 then Some (n - 48)
      else if 97 \<le> n \<and> n \<le> 102 then Some (n - 87)
      else if 65 \<le> n \<and> n \<le> 70 then Some (n - 55)
      else None)"

definition escape_char :: "char \<Rightarrow> string" where
  "escape_char c =
     (if c = CHR 0x22 then [CHR 0x5C, CHR 0x22]
      else if c = CHR 0x5C then [CHR 0x5C, CHR 0x5C]
      else if c = CHR 0x08 then [CHR 0x5C, CHR ''b'']
      else if c = CHR 0x0C then [CHR 0x5C, CHR ''f'']
      else if c = CHR 0x0A then [CHR 0x5C, CHR ''n'']
      else if c = CHR 0x0D then [CHR 0x5C, CHR ''r'']
      else if c = CHR 0x09 then [CHR 0x5C, CHR ''t'']
      else if (of_char c :: int) < 32 then
        [CHR 0x5C, CHR ''u'', CHR ''0'', CHR ''0'', hex_char (of_char c div 16), hex_char (of_char c)]
      else [c])"

definition QuoteJSONString :: "string \<Rightarrow> string" where
  "QuoteJSONString s = CHR 0x22 # concat (map escape_char s) @ [CHR 0x22]"


text \<open>
  The text of a number: sign, integer digits and, when there are any, the fraction
  digits. A finite double has at most 1074 fraction digits; \<open>fraction_digits\<close> counts
  them, up to its fuel. (The engine switches to exponent notation for very large and very
  small numbers; the text here is always positional, and denotes the same number.)
\<close>

function int_string :: "int \<Rightarrow> string" where
  "int_string n = (if n < 10 then [digit_char n] else int_string (n div 10) @ [digit_char n])"
  by pat_completeness auto
termination
  by (relation "measure nat") auto

declare int_string.simps [simp del]

definition is_int_rat :: "rat \<Rightarrow> bool" where
  "is_int_rat r = (of_int \<lfloor>r\<rfloor> = r)"

fun fraction_digits :: "nat \<Rightarrow> nat \<Rightarrow> rat \<Rightarrow> nat option" where
  "fraction_digits 0 k r = (if is_int_rat r then Some k else None)"
| "fraction_digits (Suc fuel) k r =
     (if is_int_rat r then Some k else fraction_digits fuel (Suc k) (r * 10))"

definition Number_toString :: "rat \<Rightarrow> string" where
  "Number_toString r =
     (case fraction_digits 1100 0 \<bar>r\<bar> of
        None \<Rightarrow> []
      | Some k \<Rightarrow>
          (let M = \<lfloor>\<bar>r\<bar> * 10 ^ k\<rfloor> in
           (if r < 0 then ''-'' else []) @ int_string (M div 10 ^ k)
           @ (if k = 0 then [] else CHR ''.'' # pad k (M mod 10 ^ k))))"

text \<open>\<^verbatim>\<open>JSON.stringify\<close> without indentation.\<close>

fun JSON_stringify :: "json \<Rightarrow> string"
  and stringify_elems :: "json list \<Rightarrow> string"
  and stringify_members :: "(string \<times> json) list \<Rightarrow> string" where
  "JSON_stringify JNull = ''null''"
| "JSON_stringify (JBool b) = (if b then ''true'' else ''false'')"
| "JSON_stringify (JNum r) = Number_toString r"
| "JSON_stringify (JStr s) = QuoteJSONString s"
| "JSON_stringify (JArr xs) = CHR ''['' # stringify_elems xs @ '']''"
| "JSON_stringify (JObj ps) = CHR ''{'' # stringify_members ps @ ''}''"
| "stringify_elems [] = []"
| "stringify_elems [x] = JSON_stringify x"
| "stringify_elems (x # y # ys) = JSON_stringify x @ CHR '','' # stringify_elems (y # ys)"
| "stringify_members [] = []"
| "stringify_members [p] = QuoteJSONString (fst p) @ CHR '':'' # JSON_stringify (snd p)"
| "stringify_members (p # q # ps) =
     QuoteJSONString (fst p) @ CHR '':'' # JSON_stringify (snd p) @ CHR '','' # stringify_members (q # ps)"

text \<open>
  \<^verbatim>\<open>JSON.parse\<close>, by recursive descent. \<open>None\<close> is the SyntaxError. A repeated key
  overwrites the earlier value. The recursion is bounded by a counter that the length of
  the text determines: a call consumes a character of the text before it recurses twice.
  An escape \<^verbatim>\<open>\u\<close> above \<^verbatim>\<open>00ff\<close> has no 8-bit character and is rejected here.
\<close>

definition is_json_ws :: "char \<Rightarrow> bool" where
  "is_json_ws c = (c = CHR '' '' \<or> c = CHR 0x09 \<or> c = CHR 0x0A \<or> c = CHR 0x0D)"

definition skip_ws :: "string \<Rightarrow> string" where
  "skip_ws s = dropWhile is_json_ws s"

definition unescape :: "char \<Rightarrow> char option" where
  "unescape e =
     (if e = CHR 0x22 then Some (CHR 0x22)
      else if e = CHR 0x5C then Some (CHR 0x5C)
      else if e = CHR ''/'' then Some (CHR ''/'')
      else if e = CHR ''b'' then Some (CHR 0x08)
      else if e = CHR ''f'' then Some (CHR 0x0C)
      else if e = CHR ''n'' then Some (CHR 0x0A)
      else if e = CHR ''r'' then Some (CHR 0x0D)
      else if e = CHR ''t'' then Some (CHR 0x09)
      else None)"

definition hex4 :: "char \<Rightarrow> char \<Rightarrow> char \<Rightarrow> char \<Rightarrow> int option" where
  "hex4 h1 h2 h3 h4 =
     (case (hex_of h1, hex_of h2, hex_of h3, hex_of h4) of
        (Some a, Some b, Some c, Some d) \<Rightarrow> Some (((a * 16 + b) * 16 + c) * 16 + d)
      | _ \<Rightarrow> None)"

definition cons_result :: "char \<Rightarrow> (string \<times> string) option \<Rightarrow> (string \<times> string) option" where
  "cons_result c r = (case r of None \<Rightarrow> None | Some (s, rest) \<Rightarrow> Some (c # s, rest))"

fun parse_string :: "string \<Rightarrow> (string \<times> string) option" where
  "parse_string [] = None"
| "parse_string (c # r) =
     (if c = CHR 0x22 then Some ([], r)
      else if c = CHR 0x5C then
        (case r of
           [] \<Rightarrow> None
         | e # r1 \<Rightarrow>
             (if e = CHR ''u'' then
                (case r1 of
                   h1 # h2 # h3 # h4 # r2 \<Rightarrow>
                     (case hex4 h1 h2 h3 h4 of
                        None \<Rightarrow> None
                      | Some n \<Rightarrow> (if n < 256 then cons_result (char_of n) (parse_string r2)
                                   else None))
                 | _ \<Rightarrow> None)
              else
                (case unescape e of
                   None \<Rightarrow> None
                 | Some ch \<Rightarrow> cons_result ch (parse_string r1))))
      else if (of_char c :: int) < 32 then None
      else cons_result c (parse_string r))"

definition exponent_part :: "string \<Rightarrow> (rat \<times> string) option" where
  "exponent_part s =
     (case s of
        e # r \<Rightarrow>
          (if e = CHR ''e'' \<or> e = CHR ''E'' then
             (let (neg, r1) = (case r of
                                 c # r2 \<Rightarrow> (if c = CHR ''-'' then (True, r2)
                                             else if c = CHR ''+'' then (False, r2)
                                             else (False, r))
                               | [] \<Rightarrow> (False, r));
                  ds = takeWhile is_digit r1
              in if ds = [] then None
                 else (case digits_val 0 ds of
                         Some n \<Rightarrow> Some (if neg then 1 / 10 ^ nat n else 10 ^ nat n,
                                    dropWhile is_digit r1)
                       | None \<Rightarrow> None))
           else Some (1, s))
      | [] \<Rightarrow> Some (1, s))"

definition fraction_part :: "string \<Rightarrow> (string \<times> string) option" where
  "fraction_part s =
     (case s of
        c # r \<Rightarrow>
          (if c = CHR ''.'' then
             (let fp = takeWhile is_digit r in
              if fp = [] then None else Some (fp, dropWhile is_digit r))
           else Some ([], s))
      | [] \<Rightarrow> Some ([], s))"

definition parse_number :: "string \<Rightarrow> (rat \<times> string) option" where
  "parse_number s =
     (let (neg, s1) = (case s of
                         c # r \<Rightarrow> (if c = CHR ''-'' then (True, r) else (False, s))
                       | [] \<Rightarrow> (False, s));
          ip = takeWhile is_digit s1
      in if ip = [] \<or> (1 < length ip \<and> hd ip = CHR ''0'') then None
         else
           (case fraction_part (dropWhile is_digit s1) of
              None \<Rightarrow> None
            | Some (fp, s3) \<Rightarrow>
                (case exponent_part s3 of
                   None \<Rightarrow> None
                 | Some (e, s4) \<Rightarrow>
                     (let m = (digits_rat ip + digits_rat fp / 10 ^ length fp) * e
                      in Some (if neg then - m else m, s4)))))"

text \<open>
  The members of an object are kept in the order of the text; a repeated key keeps the
  place of its first occurrence and takes the later value.
\<close>

fun add_member :: "string \<Rightarrow> 'v \<Rightarrow> (string \<times> 'v) list \<Rightarrow> (string \<times> 'v) list" where
  "add_member k v [] = [(k, v)]"
| "add_member k v (p # ps) = (if fst p = k then (k, v) # ps else p # add_member k v ps)"

fun parse_value :: "nat \<Rightarrow> string \<Rightarrow> (json \<times> string) option"
  and parse_elems :: "nat \<Rightarrow> json list \<Rightarrow> string \<Rightarrow> (json \<times> string) option"
  and parse_members :: "nat \<Rightarrow> (string \<times> json) list \<Rightarrow> string \<Rightarrow> (json \<times> string) option" where
  "parse_value 0 s = None"
| "parse_value (Suc n) s =
     (case skip_ws s of
        [] \<Rightarrow> None
      | c # r \<Rightarrow>
          (if c = CHR ''{'' then
             (case skip_ws r of
                [] \<Rightarrow> None
              | d # r1 \<Rightarrow> (if d = CHR ''}'' then Some (JObj [], r1) else parse_members n [] r))
           else if c = CHR ''['' then
             (case skip_ws r of
                [] \<Rightarrow> None
              | d # r1 \<Rightarrow> (if d = CHR '']'' then Some (JArr [], r1) else parse_elems n [] r))
           else if c = CHR 0x22 then
             (case parse_string r of None \<Rightarrow> None | Some (str, r1) \<Rightarrow> Some (JStr str, r1))
           else if take 4 (c # r) = ''null'' then Some (JNull, drop 4 (c # r))
           else if take 4 (c # r) = ''true'' then Some (JBool True, drop 4 (c # r))
           else if take 5 (c # r) = ''false'' then Some (JBool False, drop 5 (c # r))
           else (case parse_number (c # r) of
                   None \<Rightarrow> None
                 | Some (x, r1) \<Rightarrow> Some (JNum x, r1))))"
| "parse_elems 0 acc s = None"
| "parse_elems (Suc n) acc s =
     (case parse_value n s of
        None \<Rightarrow> None
      | Some (v, r) \<Rightarrow>
          (case skip_ws r of
             [] \<Rightarrow> None
           | c # r1 \<Rightarrow>
               (if c = CHR '','' then parse_elems n (acc @ [v]) r1
                else if c = CHR '']'' then Some (JArr (acc @ [v]), r1)
                else None)))"
| "parse_members 0 acc s = None"
| "parse_members (Suc n) acc s =
     (case skip_ws s of
        [] \<Rightarrow> None
      | q # r \<Rightarrow>
          (if q = CHR 0x22 then
             (case parse_string r of
                None \<Rightarrow> None
              | Some (k, r1) \<Rightarrow>
                  (case skip_ws r1 of
                     [] \<Rightarrow> None
                   | c # r2 \<Rightarrow>
                       (if c = CHR '':'' then
                          (case parse_value n r2 of
                             None \<Rightarrow> None
                           | Some (v, r3) \<Rightarrow>
                               (case skip_ws r3 of
                                  [] \<Rightarrow> None
                                | d # r4 \<Rightarrow>
                                    (if d = CHR '','' then parse_members n (add_member k v acc) r4
                                     else if d = CHR ''}'' then Some (JObj (add_member k v acc), r4)
                                     else None)))
                        else None)))
           else None))"

definition JSON_parse :: "string \<Rightarrow> json option" where
  "JSON_parse s =
     (case parse_value (2 * length s + 2) s of
        None \<Rightarrow> None
      | Some (v, r) \<Rightarrow> (if skip_ws r = [] then Some v else None))"

subsection \<open>The document as a JSON value\<close>

text \<open>
  The value that \<^verbatim>\<open>JSON.stringify\<close> walks: the properties of each object in the order of
  \<^verbatim>\<open>defaultItinerary\<close>. NaN and the infinities are written as \<^verbatim>\<open>null\<close>.
\<close>

definition activity_json :: "Activity \<Rightarrow> json" where
  "activity_json a =
     JObj [(''id'', JStr (aid a)), (''time'', JStr (time a)),
           (''description'', JStr (description a))]"

definition day_json :: "DayPlan \<Rightarrow> json" where
  "day_json d =
     JObj [(''id'', JStr (did d)), (''day'', JNum (of_int (day d))), (''date'', JStr (date d)),
           (''activities'', JArr (map activity_json (activities d)))]"

fun number_json :: "jsnum \<Rightarrow> json" where
  "number_json (Num r) = JNum r"
| "number_json x = JNull"

definition category_json :: "category \<Rightarrow> json" where
  "category_json c = JObj (map (\<lambda>p. (fst p, number_json (snd p))) c)"

definition budget_json :: "BudgetSheet \<Rightarrow> json" where
  "budget_json b =
     JObj ((''currency'', JStr (currency b))
           # map (\<lambda>p. (fst p, category_json (snd p))) (categories b))"

definition toJSON :: "TripDocument \<Rightarrow> json" where
  "toJSON doc =
     JObj [(''title'', JStr (title doc)), (''destination'', JStr (destination doc)),
           (''startDate'', JStr (startDate doc)), (''endDate'', JStr (endDate doc)),
           (''notes'', JStr (notesText doc)),
           (''itinerary'', JArr (map day_json (itinerary doc))),
           (''budget'', budget_json (budget doc))]"

text \<open>
  Reading a parsed value as a document: the properties are looked up by name. A value
  with missing, additional or differently typed properties is not a document.
\<close>

definition activity_of :: "json \<Rightarrow> Activity option" where
  "activity_of v =
     (case v of
        JObj ps \<Rightarrow>
          (case (map_of ps ''id'', map_of ps ''time'', map_of ps ''description'') of
             (Some (JStr i), Some (JStr t), Some (JStr d)) \<Rightarrow>
               (if length ps = 3 then Some \<lparr>aid = i, time = t, description = d\<rparr> else None)
           | _ \<Rightarrow> None)
      | _ \<Rightarrow> None)"

definition day_of :: "json \<Rightarrow> DayPlan option" where
  "day_of v =
     (case v of
        JObj ps \<Rightarrow>
          (case (map_of ps ''id'', map_of ps ''day'', map_of ps ''date'', map_of ps ''activities'') of
             (Some (JStr i), Some (JNum n), Some (JStr d), Some (JArr xs)) \<Rightarrow>
               (case those (map activity_of xs) of
                  Some acts \<Rightarrow>
                    (if length ps = 4 \<and> is_int_rat n
                     then Some \<lparr>did = i, day = \<lfloor>n\<rfloor>, date = d, activities = acts\<rparr>
                     else None)
                | None \<Rightarrow> None)
           | _ \<Rightarrow> None)
      | _ \<Rightarrow> None)"

definition amount_of :: "string \<times> json \<Rightarrow> (string \<times> jsnum) option" where
  "amount_of p = (case snd p of JNum r \<Rightarrow> Some (fst p, Num r) | _ \<Rightarrow> None)"

definition category_of :: "string \<times> json \<Rightarrow> (string \<times> category) option" where
  "category_of p =
     (case snd p of
        JObj fs \<Rightarrow>
          (case those (map amount_of fs) of Some c \<Rightarrow> Some (fst p, c) | None \<Rightarrow> None)
      | _ \<Rightarrow> None)"

definition budget_of :: "json \<Rightarrow> BudgetSheet option" where
  "budget_of v =
     (case v of
        JObj ps \<Rightarrow>
          (case map_of ps ''currency'' of
             Some (JStr c) \<Rightarrow>
               (case those (map category_of (filter (\<lambda>p. fst p \<noteq> ''currency'') ps)) of
                  Some cs \<Rightarrow> Some \<lparr>currency = c, categories = cs\<rparr>
                | None \<Rightarrow> None)
           | _ \<Rightarrow> None)
      | _ \<Rightarrow> None)"

definition fromJSON :: "json \<Rightarrow> TripDocument option" where
  "fromJSON v =
     (case v of
        JObj ps \<Rightarrow>
          (case (map_of ps ''title'', map_of ps ''destination'', map_of ps ''startDate'',
                 map_of ps ''endDate'', map_of ps ''notes'', map_of ps ''itinerary'',
                 map_of ps ''budget'') of
             (Some (JStr t), Some (JStr de), Some (JStr sd), Some (JStr ed), Some (JStr no),
              Some (JArr ds), Some b) \<Rightarrow>
               (case (those (map day_of ds), budget_of b) of
                  (Some days, Some bs) \<Rightarrow>
                    (if length ps = 7
                     then Some \<lparr>title = t, destination = de, startDate = sd, endDate = ed,
                                notesText = no, itinerary = days, budget = bs\<rparr>
                     else None)
                | _ \<Rightarrow> None)
           | _ \<Rightarrow> None)
      | _ \<Rightarrow> None)"

definition serialize :: "TripDocument \<Rightarrow> string" where
  "serialize doc = JSON_stringify (toJSON doc)"

definition deserialize :: "string \<Rightarrow> TripDocument option" where
  "deserialize s = (case JSON_parse s of None \<Rightarrow> None | Some v \<Rightarrow> fromJSON v)"

text \<open>
  A well-formed document as far as JSON is concerned: every amount is a finite number,
  and the keys of the budget and of each category are distinct (they are the keys of an
  object), none of them being \<^verbatim>\<open>currency\<close>.
\<close>

definition finite_amount :: "jsnum \<Rightarrow> bool" where
  "finite_amount x = (case x of Num r \<Rightarrow> fraction_digits 1100 0 \<bar>r\<bar> \<noteq> None | _ \<Rightarrow> False)"

definition well_formed :: "TripDocument \<Rightarrow> bool" where
  "well_formed doc =
     (let cs = categories (budget doc) in
      distinct (map fst cs) \<and> ''currency'' \<notin> set (map fst cs)
      \<and> list_all (\<lambda>p. distinct (map fst (snd p)) \<and> list_all (\<lambda>q. finite_amount (snd q)) (snd p)) cs)"



subsection \<open>Notions for the round trip\<close>

text \<open>What may follow a value inside a text: nothing, a comma or a closing bracket.\<close>

definition terminator :: "string \<Rightarrow> bool" where
  "terminator rest = (rest = [] \<or> hd rest \<in> {CHR '','', CHR '']'', CHR ''}''})"

text \<open>The digits of a non-negative number with \<open>k\<close> fraction digits.\<close>

definition number_body :: "int \<Rightarrow> nat \<Rightarrow> string" where
  "number_body M k =
     int_string (M div 10 ^ k) @ (if k = 0 then [] else CHR ''.'' # pad k (M mod 10 ^ k))"

text \<open>
  Values that have a text: every number has at most 1100 fraction digits and no object
  repeats a key.
\<close>

fun printable :: "json \<Rightarrow> bool"
  and printable_elems :: "json list \<Rightarrow> bool"
  and printable_members :: "(string \<times> json) list \<Rightarrow> bool" where
  "printable (JNum r) = (fraction_digits 1100 0 \<bar>r\<bar> \<noteq> None)"
| "printable (JArr xs) = printable_elems xs"
| "printable (JObj ps) = (distinct (map fst ps) \<and> printable_members ps)"
| "printable JNull = True"
| "printable (JBool b) = True"
| "printable (JStr s) = True"
| "printable_elems [] = True"
| "printable_elems (x # xs) = (printable x \<and> printable_elems xs)"
| "printable_members [] = True"
| "printable_members (p # ps) = (printable (snd p) \<and> printable_members ps)"

text \<open>The first character of a value's text is not white space and not a closing bracket.\<close>

definition opener :: "char \<Rightarrow> bool" where
  "opener c = (\<not> is_json_ws c \<and> c \<noteq> CHR '']'' \<and> c \<noteq> CHR ''}'' \<and> c \<noteq> CHR '','')"


section \<open>Persistence\<close>

text \<open>
  \<^verbatim>\<open>saveItinerary\<close>: nothing is written without a database or a user; otherwise the
  record is written under the user's path. \<open>now\<close> is \<^verbatim>\<open>new Date().toISOString()\<close>.
\<close>

record StoredRecord =
  path :: string
  itineraryData :: string
  lastUpdated :: string

definition saveItinerary ::
  "string \<Rightarrow> bool \<Rightarrow> string option \<Rightarrow> string \<Rightarrow> TripDocument \<Rightarrow> StoredRecord option" where
  "saveItinerary appId db userId now dataToSave =
     (case userId of
        None \<Rightarrow> None
      | Some uid \<Rightarrow>
          (if \<not> db \<or> uid = [] then None
           else Some \<lparr>path = ''artifacts/'' @ appId @ ''/users/'' @ uid
                              @ ''/itinerary_data/trip_master'',
                       itineraryData = serialize dataToSave, lastUpdated = now\<rparr>))"

text \<open>
  The callback that the App passes to \<^verbatim>\<open>onSnapshot\<close>. A snapshot either does not exist
  or carries the stored record, whose \<^verbatim>\<open>itineraryData\<close> is a string or is absent
  (\<open>None\<close>); the absent and the empty string are falsy. The parsed value becomes the
  state as it is: it may or may not be a document. \<open>parse\<close> is the engine's
  \<^verbatim>\<open>JSON.parse\<close>, \<open>None\<close> when it raises; the listener is stated for any engine, and
  \<open>JSON_parse\<close> above is the one used in the examples. The result is the new
  \<^verbatim>\<open>tripDetails\<close> and the arguments of the calls of \<^verbatim>\<open>saveItinerary\<close>, in order.
\<close>

datatype snapshot = NotExists | Exists "string option"

datatype state_value = Document TripDocument | NotDocument json

definition as_state :: "json \<Rightarrow> state_value" where
  "as_state v = (case fromJSON v of Some doc \<Rightarrow> Document doc | None \<Rightarrow> NotDocument v)"

record outcome =
  tripDetails :: state_value
  saved :: "TripDocument list"

definition onSnapshot_listener ::
  "(string \<Rightarrow> json option) \<Rightarrow> TripDocument \<Rightarrow> snapshot \<Rightarrow> state_value \<Rightarrow> outcome" where
  "onSnapshot_listener parse defaultDoc docSnap prev =
     (case docSnap of
        Exists data \<Rightarrow>
          (case data of
             Some s \<Rightarrow>
               (if s \<noteq> [] then
                  (case parse s of
                     Some parsedData \<Rightarrow> \<lparr>tripDetails = as_state parsedData, saved = []\<rparr>
                   | None \<Rightarrow> \<lparr>tripDetails = Document defaultDoc, saved = []\<rparr>)
                else \<lparr>tripDetails = prev, saved = [defaultDoc]\<rparr>)
           | None \<Rightarrow> \<lparr>tripDetails = prev, saved = [defaultDoc]\<rparr>)
      | NotExists \<Rightarrow> \<lparr>tripDetails = prev, saved = [defaultDoc]\<rparr>)"

text \<open>Day numbers are exactly \<open>1..N\<close>, ascending, for \<open>N\<close> days.\<close>

definition contiguous :: "DayPlan list \<Rightarrow> bool" where
  "contiguous ds = (map day ds = [1..int (length ds)])"

section \<open>Properties of the date primitives\<close>

lemma TimeClip_Some: "- maxTime \<le> t \<Longrightarrow> t \<le> maxTime \<Longrightarrow> TimeClip t = Some t"
  by (simp add: TimeClip_def)

lemma TimeClip_range: "TimeClip t = Some t' \<Longrightarrow> t' = t \<and> \<bar>t\<bar> \<le> maxTime"
  by (simp add: TimeClip_def split: if_splits)

lemma make_date_range: "make_date y mo da = Some t \<Longrightarrow> \<bar>t\<bar> \<le> maxTime"
  by (auto simp: make_date_def split: option.splits if_splits dest: TimeClip_range)

lemma Date_parse_range: "Date_parse s = Some t \<Longrightarrow> \<bar>t\<bar> \<le> maxTime"
  unfolding Date_parse_def
  by (auto split: if_splits option.splits dest: make_date_range)

subsection \<open>The calendar\<close>

lemma year_start_upper: "400 * year_start Y \<le> 146097 * Y + 396"
proof -
  define a b c where "a = Y div 4" and "b = Y div 100" and "c = Y div 400"
  have "4 * a \<le> Y" "Y \<le> 100 * b + 99" "400 * c \<le> Y"
    unfolding a_def b_def c_def by linarith+
  moreover have "year_start Y = 365 * Y + a - b + c"
    by (simp add: year_start_def a_def b_def c_def)
  ultimately show ?thesis by linarith
qed

lemma year_start_lower: "146097 * Y - 699 \<le> 400 * year_start Y"
proof -
  define a b c where "a = Y div 4" and "b = Y div 100" and "c = Y div 400"
  have "Y \<le> 4 * a + 3" "100 * b \<le> Y" "Y \<le> 400 * c + 399"
    unfolding a_def b_def c_def by linarith+
  moreover have "year_start Y = 365 * Y + a - b + c"
    by (simp add: year_start_def a_def b_def c_def)
  ultimately show ?thesis by linarith
qed

lemma march_year_bounds:
  "year_start (march_year g) \<le> g \<and> g < year_start (march_year g + 1)"
proof -
  define Y0 where "Y0 = (400 * g) div 146097"
  have e: "146097 * Y0 \<le> 400 * g" "400 * g < 146097 * Y0 + 146097"
    unfolding Y0_def by linarith+
  define L H where "L = year_start (Y0 - 1)" and "H = year_start (Y0 + 1 + 1)"
  have "400 * L \<le> 146097 * (Y0 - 1) + 396"
    unfolding L_def by (rule year_start_upper)
  then have "400 * L \<le> 146097 * Y0 - 145701" by simp
  then have "L \<le> g" using e by linarith
  then have lo: "year_start (Y0 - 1) \<le> g" by (simp add: L_def)
  have "146097 * (Y0 + 1 + 1) - 699 \<le> 400 * H"
    unfolding H_def by (rule year_start_lower)
  then have "146097 * Y0 + 291495 \<le> 400 * H" by simp
  then have "g < H" using e by linarith
  then have hi: "g < year_start (Y0 + 1 + 1)" by (simp add: H_def)
  show ?thesis
    using lo hi by (auto simp: march_year_def Let_def Y0_def [symmetric])
qed


lemma div_succ:
  fixes Y k :: int
  assumes "1 < k"
  shows "(Y + 1) div k = Y div k + (if (Y + 1) mod k = 0 then 1 else 0)"
proof -
  define q r where "q = Y div k" and "r = Y mod k"
  have Y: "Y = r + q * k" by (simp add: q_def r_def)
  have r: "0 \<le> r" "r < k" using assms by (simp_all add: r_def)
  show ?thesis
  proof (cases "r = k - 1")
    case True
    then have t: "Y + 1 = (q + 1) * k" using Y by (simp add: algebra_simps)
    have "(Y + 1) div k = q + 1" "(Y + 1) mod k = 0"
      unfolding t using assms by simp_all
    then show ?thesis by (simp add: q_def)
  next
    case False
    then have s: "0 \<le> r + 1" "r + 1 < k" using r by simp_all
    have k: "k \<noteq> 0" using assms by simp
    have t: "Y + 1 = (r + 1) + q * k" using Y by simp
    have "(Y + 1) div k = q + (r + 1) div k" "(Y + 1) mod k = (r + 1) mod k"
      unfolding t by (rule div_mult_self1 [OF k], rule mod_mult_self1)
    then have "(Y + 1) div k = q" "(Y + 1) mod k = r + 1"
      using s by simp_all
    then show ?thesis using r by (simp add: q_def)
  qed
qed

lemma year_length:
  "year_start (Y + 1) = year_start Y + 365 + (if leap_year (Y + 1) then 1 else 0)"
proof -
  have d: "(Y + 1) mod 100 = 0" if "(Y + 1) mod 400 = 0"
  proof -
    from that have "400 dvd Y + 1" by (simp add: dvd_eq_mod_eq_0)
    moreover have "(100::int) dvd 400" by simp
    ultimately have "100 dvd Y + 1" by (rule dvd_trans [rotated])
    then show ?thesis by (simp add: dvd_eq_mod_eq_0)
  qed
  have e: "(Y + 1) mod 4 = 0" if "(Y + 1) mod 100 = 0"
  proof -
    from that have "100 dvd Y + 1" by (simp add: dvd_eq_mod_eq_0)
    moreover have "(4::int) dvd 100" by simp
    ultimately have "4 dvd Y + 1" by (rule dvd_trans [rotated])
    then show ?thesis by (simp add: dvd_eq_mod_eq_0)
  qed
  have a: "(Y + 1) div 4 = Y div 4 + (if (Y + 1) mod 4 = 0 then 1 else 0)"
    by (rule div_succ) simp
  have b: "(Y + 1) div 100 = Y div 100 + (if (Y + 1) mod 100 = 0 then 1 else 0)"
    by (rule div_succ) simp
  have c: "(Y + 1) div 400 = Y div 400 + (if (Y + 1) mod 400 = 0 then 1 else 0)"
    by (rule div_succ) simp
  define p4 p100 p400 where "p4 = ((Y + 1) mod 4 = 0)" and "p100 = ((Y + 1) mod 100 = 0)"
    and "p400 = ((Y + 1) mod 400 = 0)"
  have i: "p400 \<longrightarrow> p100" "p100 \<longrightarrow> p4"
    using d e by (simp_all add: p4_def p100_def p400_def)
  define u v w where "u = Y div 4" and "v = Y div 100" and "w = Y div 400"
  have "year_start (Y + 1) = 365 * (Y + 1) + (u + (if p4 then 1 else 0))
      - (v + (if p100 then 1 else 0)) + (w + (if p400 then 1 else 0))"
    unfolding year_start_def a b c p4_def p100_def p400_def u_def v_def w_def ..
  moreover have "year_start Y = 365 * Y + u - v + w"
    unfolding year_start_def u_def v_def w_def ..
  moreover have "leap_year (Y + 1) = (p4 \<and> (\<not> p100 \<or> p400))"
    unfolding leap_year_def p4_def p100_def p400_def by simp
  ultimately show ?thesis
    using i by (cases p4; cases p100; cases p400; simp)
qed

lemma div_between:
  fixes a b q :: int
  assumes "b * q \<le> a" and "a < b * q + b"
  shows "a div b = q"
proof -
  have "a = b * q + (a - b * q)" by simp
  moreover have "0 \<le> a - b * q" "a - b * q < b" using assms by simp_all
  ultimately show ?thesis by (rule int_div_pos_eq)
qed

lemma month_pos_eq:
  assumes "153 * k \<le> 5 * doy + 2" and "5 * doy + 2 < 153 * k + 153"
  shows "month_pos doy = k"
  unfolding month_pos_def using assms by (rule div_between)

lemma month_day:
  assumes "0 \<le> doy" and "doy \<le> 364 + (if leap_year (Y + 1) then 1 else 0)"
  defines "m \<equiv> (if month_pos doy < 10 then month_pos doy + 3 else month_pos doy - 9)"
    and "d \<equiv> doy - month_start (month_pos doy) + 1"
  shows "1 \<le> m \<and> m \<le> 12 \<and> 1 \<le> d \<and> d \<le> days_in_month (if m \<le> 2 then Y + 1 else Y) m
    \<and> month_start (if m > 2 then m - 3 else m + 9) + d - 1 = doy"
proof -
  have top: "doy \<le> 365" using assms(2) by (simp split: if_splits)
  consider "doy \<le> 30" | "31 \<le> doy \<and> doy \<le> 60" | "61 \<le> doy \<and> doy \<le> 91"
    | "92 \<le> doy \<and> doy \<le> 121" | "122 \<le> doy \<and> doy \<le> 152" | "153 \<le> doy \<and> doy \<le> 183"
    | "184 \<le> doy \<and> doy \<le> 213" | "214 \<le> doy \<and> doy \<le> 244" | "245 \<le> doy \<and> doy \<le> 274"
    | "275 \<le> doy \<and> doy \<le> 305" | "306 \<le> doy \<and> doy \<le> 336" | "337 \<le> doy"
    by linarith
  then show ?thesis
  proof cases
    case 1
    then have "month_pos doy = 0" using assms(1) by (intro month_pos_eq) simp_all
    then show ?thesis using 1 assms(1)
      by (simp add: m_def d_def month_start_def days_in_month_def)
  next
    case 2
    then have "month_pos doy = 1" by (intro month_pos_eq) simp_all
    then show ?thesis using 2
      by (simp add: m_def d_def month_start_def days_in_month_def)
  next
    case 3
    then have "month_pos doy = 2" by (intro month_pos_eq) simp_all
    then show ?thesis using 3
      by (simp add: m_def d_def month_start_def days_in_month_def)
  next
    case 4
    then have "month_pos doy = 3" by (intro month_pos_eq) simp_all
    then show ?thesis using 4
      by (simp add: m_def d_def month_start_def days_in_month_def)
  next
    case 5
    then have "month_pos doy = 4" by (intro month_pos_eq) simp_all
    then show ?thesis using 5
      by (simp add: m_def d_def month_start_def days_in_month_def)
  next
    case 6
    then have "month_pos doy = 5" by (intro month_pos_eq) simp_all
    then show ?thesis using 6
      by (simp add: m_def d_def month_start_def days_in_month_def)
  next
    case 7
    then have "month_pos doy = 6" by (intro month_pos_eq) simp_all
    then show ?thesis using 7
      by (simp add: m_def d_def month_start_def days_in_month_def)
  next
    case 8
    then have "month_pos doy = 7" by (intro month_pos_eq) simp_all
    then show ?thesis using 8
      by (simp add: m_def d_def month_start_def days_in_month_def)
  next
    case 9
    then have "month_pos doy = 8" by (intro month_pos_eq) simp_all
    then show ?thesis using 9
      by (simp add: m_def d_def month_start_def days_in_month_def)
  next
    case 10
    then have "month_pos doy = 9" by (intro month_pos_eq) simp_all
    then show ?thesis using 10
      by (simp add: m_def d_def month_start_def days_in_month_def)
  next
    case 11
    then have "month_pos doy = 10" by (intro month_pos_eq) simp_all
    then show ?thesis using 11
      by (simp add: m_def d_def month_start_def days_in_month_def)
  next
    case 12
    then have "month_pos doy = 11" using top by (intro month_pos_eq) simp_all
    then show ?thesis using 12 assms(2)
      by (simp add: m_def d_def month_start_def days_in_month_def split: if_splits)
  qed
qed

lemma civil_from_days_valid:
  assumes "civil_from_days z = (y, m, d)"
  shows "1 \<le> m \<and> m \<le> 12 \<and> 1 \<le> d \<and> d \<le> days_in_month y m \<and> days_from_civil y m d = z"
proof -
  define g where "g = z + 719468"
  define Y where "Y = march_year g"
  define doy where "doy = g - year_start Y"
  have b: "year_start Y \<le> g" "g < year_start (Y + 1)"
    using march_year_bounds [of g] by (simp_all add: Y_def)
  have lo: "0 \<le> doy" using b(1) by (simp add: doy_def)
  have hi: "doy \<le> 364 + (if leap_year (Y + 1) then 1 else 0)"
    using b(2) unfolding year_length doy_def by (simp split: if_splits)
  have "civil_from_days z
      = (if (if month_pos doy < 10 then month_pos doy + 3 else month_pos doy - 9) \<le> 2
         then Y + 1 else Y,
         if month_pos doy < 10 then month_pos doy + 3 else month_pos doy - 9,
         doy - month_start (month_pos doy) + 1)"
    unfolding civil_from_days_def Let_def doy_def Y_def g_def ..
  then have m: "m = (if month_pos doy < 10 then month_pos doy + 3 else month_pos doy - 9)"
    and d: "d = doy - month_start (month_pos doy) + 1"
    and y: "y = (if m \<le> 2 then Y + 1 else Y)"
    using assms by simp_all
  note md = month_day [OF lo hi, folded m d, folded y]
  have "days_from_civil y m d = year_start Y + doy - 719468"
    using md by (auto simp: days_from_civil_def Let_def y)
  then have "days_from_civil y m d = z" by (simp add: doy_def g_def)
  then show ?thesis using md by simp
qed

lemma civil_from_days_year:
  assumes "civil_from_days z = (y, m, d)" and "- 100000000 \<le> z" and "z \<le> 100000000"
  shows "- 999999 \<le> y \<and> y \<le> 999999"
proof -
  define g where "g = z + 719468"
  define Y where "Y = march_year g"
  have b: "year_start Y \<le> g" "g < year_start (Y + 1)"
    using march_year_bounds [of g] by (simp_all add: Y_def)
  have "146097 * Y - 699 \<le> 400 * g" using year_start_lower [of Y] b(1) by linarith
  moreover have "400 * g < 146097 * (Y + 1) + 396" using year_start_upper [of "Y + 1"] b(2) by linarith
  ultimately have "- 999999 \<le> Y \<and> Y + 1 \<le> 999999" using assms(2,3) by (simp add: g_def)
  moreover have "y = Y \<or> y = Y + 1"
    using assms(1) by (auto simp: civil_from_days_def Let_def g_def [symmetric] Y_def [symmetric])
  ultimately show ?thesis by auto
qed

subsection \<open>Printing a date and reading it back\<close>

lemma digit_of_digit_char: "digit_of (digit_char n) = Some (n mod 10)"
proof -
  have "0 \<le> n mod 10" "n mod 10 < 10" by simp_all
  then have "(48 + n mod 10) mod 256 = 48 + n mod 10" by simp
  then show ?thesis using \<open>0 \<le> n mod 10\<close> \<open>n mod 10 < 10\<close>
    by (simp add: digit_of_def digit_char_def Let_def)
qed

lemma digits_val_append:
  "digits_val acc (xs @ ys)
   = (case digits_val acc xs of None \<Rightarrow> None | Some a \<Rightarrow> digits_val a ys)"
  by (induction xs arbitrary: acc) (auto split: option.splits)

lemma length_pad [simp]: "length (pad w k) = w"
  by (induction w arbitrary: k) auto

lemma digits_val_pad:
  "0 \<le> k \<Longrightarrow> digits_val acc (pad w k) = Some (acc * 10 ^ w + k mod 10 ^ w)"
proof (induction w arbitrary: k acc)
  case 0
  then show ?case by simp
next
  case (Suc w)
  have "0 \<le> k div 10" using Suc.prems by simp
  then have "digits_val acc (pad w (k div 10)) = Some (acc * 10 ^ w + (k div 10) mod 10 ^ w)"
    by (rule Suc.IH)
  moreover have "10 * ((k div 10) mod 10 ^ w) + k mod 10 = k mod 10 ^ Suc w"
    using zmod_zmult2_eq [of "10 ^ w" k 10] by simp
  ultimately show ?case
    by (simp add: digits_val_append digit_of_digit_char algebra_simps)
qed

lemma digits_val_pad_small:
  assumes "0 \<le> k" and "k < 10 ^ w"
  shows "digits_val 0 (pad w k) = Some k"
  using digits_val_pad [OF assms(1), of 0 w] assms by simp

lemma Date_parse_short:
  assumes "0 \<le> y" "y \<le> 9999" "0 \<le> m" "m < 100" "0 \<le> d" "d < 100"
  shows "Date_parse (pad 4 y @ ''-'' @ pad 2 m @ ''-'' @ pad 2 d) = make_date y (Some m) (Some d)"
proof -
  define s where "s = pad 4 y @ ''-'' @ pad 2 m @ ''-'' @ pad 2 d"
  have "length s = 10" "s ! 4 = CHR ''-''" "s ! 7 = CHR ''-''"
    by (simp_all add: s_def nth_append)
  moreover have "take 4 s = pad 4 y" "take 2 (drop 5 s) = pad 2 m" "drop 8 s = pad 2 d"
    by (simp_all add: s_def)
  moreover have "digits_val 0 (pad 4 y) = Some y" "digits_val 0 (pad 2 m) = Some m"
    "digits_val 0 (pad 2 d) = Some d"
    using assms by (simp_all add: digits_val_pad_small)
  ultimately show ?thesis
    unfolding s_def [symmetric] by (simp add: Date_parse_def)
qed

lemma Date_parse_long:
  assumes "0 < a" "a \<le> 999999" "0 \<le> m" "m < 100" "0 \<le> d" "d < 100"
    and "sg = CHR ''-'' \<or> sg = CHR ''+''"
  shows "Date_parse ([sg] @ pad 6 a @ ''-'' @ pad 2 m @ ''-'' @ pad 2 d)
         = make_date (if sg = CHR ''-'' then - a else a) (Some m) (Some d)"
proof -
  define s where "s = [sg] @ pad 6 a @ ''-'' @ pad 2 m @ ''-'' @ pad 2 d"
  have "length s = 13" "s ! 0 = sg" "s ! 7 = CHR ''-''" "s ! 10 = CHR ''-''"
    by (simp_all add: s_def nth_append)
  moreover have "take 6 (drop 1 s) = pad 6 a" "take 2 (drop 8 s) = pad 2 m" "drop 11 s = pad 2 d"
    by (simp_all add: s_def)
  moreover have "digits_val 0 (pad 6 a) = Some a" "digits_val 0 (pad 2 m) = Some m"
    "digits_val 0 (pad 2 d) = Some d"
    using assms by (simp_all add: digits_val_pad_small)
  ultimately show ?thesis
    unfolding s_def [symmetric] using assms(1,7) by (auto simp: Date_parse_def)
qed

lemma days_in_month_le: "days_in_month y m \<le> 31"
  by (simp add: days_in_month_def)

lemma Date_parse_toISODate:
  assumes "- maxTime \<le> t" and "t \<le> maxTime"
  shows "Date_parse (toISODate t) = Some (t div msPerDay * msPerDay)"
proof -
  define z where "z = t div msPerDay"
  obtain y m d where c: "civil_from_days z = (y, m, d)" by (cases "civil_from_days z")
  have z: "- 100000000 \<le> z" "z \<le> 100000000"
    using assms by (simp_all add: z_def maxTime_def msPerDay_def)
  note v = civil_from_days_valid [OF c]
  note r = civil_from_days_year [OF c z]
  have m: "0 \<le> m" "m < 100" using v by simp_all
  have d: "0 \<le> d" "d < 100" using v days_in_month_le [of y m] by simp_all
  have "make_date y (Some m) (Some d) = TimeClip (z * msPerDay)"
    using v by (simp add: make_date_def)
  also have "\<dots> = Some (z * msPerDay)"
    using z by (intro TimeClip_Some) (simp_all add: maxTime_def msPerDay_def)
  finally have md: "make_date y (Some m) (Some d) = Some (z * msPerDay)" .
  consider "0 \<le> y \<and> y \<le> 9999" | "y < 0" | "9999 < y" by linarith
  then have "Date_parse (toISODate t) = make_date y (Some m) (Some d)"
  proof cases
    case 1
    then show ?thesis
      using Date_parse_short [of y m d] m d c by (simp add: toISODate_def z_def [symmetric])
  next
    case 2
    then show ?thesis
      using Date_parse_long [of "- y" m d "CHR ''-''"] m d c r
      by (simp add: toISODate_def z_def [symmetric])
  next
    case 3
    then show ?thesis
      using Date_parse_long [of y m d "CHR ''+''"] m d c r
      by (simp add: toISODate_def z_def [symmetric])
  qed
  then show ?thesis using md by (simp add: z_def)
qed

text \<open>The clock value 1793700000000 lies in 2026-11-03, which starts at 1793664000000.\<close>

lemma toISODate_sample: "toISODate 1793700000000 = ''2026-11-03''"
  by code_simp

lemma Date_parse_sample: "Date_parse ''2026-11-03'' = Some 1793664000000"
  by code_simp

text \<open>
  A start date that parses, and a day number whose date is still representable:
  the date expression returns.
\<close>

lemma dayDate_ok:
  assumes "Date_parse s = Some t" "1 \<le> k" "t + (k - 1) * 86400000 \<le> maxTime"
  shows "dayDate s k = Inr (toISODate (t + (k - 1) * 86400000))"
proof -
  have "- maxTime \<le> t" using Date_parse_range [OF assms(1)] by simp
  moreover have "0 \<le> (k - 1) * 86400000" using assms(2) by simp
  ultimately have "- maxTime \<le> t + (k - 1) * 86400000" by linarith
  then have "TimeClip (t + (k - 1) * 86400000) = Some (t + (k - 1) * 86400000)"
    using assms(3) by (rule TimeClip_Some)
  then show ?thesis using assms(1) by (simp add: dayDate_def)
qed

section \<open>Day numbering under addDay and removeDay\<close>

lemma renumber_days:
  "renumber s k ds = Inr ds' \<Longrightarrow> map day ds' = [k..k + int (length ds) - 1]"
proof (induction ds arbitrary: k ds')
  case Nil
  then show ?case by simp
next
  case (Cons d ds)
  from Cons.prems obtain nd rest where
    r: "renumber s (k + 1) ds = Inr rest" and ds': "ds' = d\<lparr>day := k, date := nd\<rparr> # rest"
    by (auto split: sum.splits)
  have "map day rest = [k + 1..k + 1 + int (length ds) - 1]" by (rule Cons.IH [OF r])
  then show ?case using ds' by (simp add: upto_rec1 [of k])
qed

lemma renumber_length: "renumber s k ds = Inr ds' \<Longrightarrow> length ds' = length ds"
  by (induction ds arbitrary: k ds') (auto split: sum.splits)

lemma renumber_ok:
  assumes "Date_parse s = Some t"
  shows "1 \<le> k \<Longrightarrow> t + (k - 1 + int (length ds)) * 86400000 \<le> maxTime
         \<Longrightarrow> \<exists>ds'. renumber s k ds = Inr ds'"
proof (induction ds arbitrary: k)
  case Nil
  then show ?case by simp
next
  case (Cons d ds)
  have "t + (k - 1) * 86400000 \<le> maxTime" using Cons.prems by simp
  then have dd: "dayDate s k = Inr (toISODate (t + (k - 1) * 86400000))"
    using assms Cons.prems(1) by (intro dayDate_ok)
  have "\<exists>ds'. renumber s (k + 1) ds = Inr ds'"
    using Cons.prems by (intro Cons.IH) (simp_all add: algebra_simps)
  then show ?case using dd by auto
qed

lemma addDay_ok:
  assumes "Date_parse (startDate doc) = Some t"
    and "t + int (length (itinerary doc)) * 86400000 \<le> maxTime"
  shows "\<exists>doc'. addDay i a doc = Inr doc' \<and> startDate doc' = startDate doc
           \<and> length (itinerary doc') = length (itinerary doc) + 1
           \<and> map day (itinerary doc') = map day (itinerary doc) @ [int (length (itinerary doc)) + 1]"
proof -
  have "dayDate (startDate doc) (int (length (itinerary doc)) + 1)
        = Inr (toISODate (t + (int (length (itinerary doc)) + 1 - 1) * 86400000))"
    using assms by (intro dayDate_ok) simp_all
  then show ?thesis by (simp add: addDay_def Let_def)
qed

lemma removeDay_ok:
  assumes "Date_parse (startDate doc) = Some t"
    and "t + int (length (itinerary doc)) * 86400000 \<le> maxTime"
  shows "\<exists>doc'. removeDay i doc = Inr doc' \<and> startDate doc' = startDate doc
           \<and> length (itinerary doc') \<le> length (itinerary doc)
           \<and> map day (itinerary doc') = [1..int (length (itinerary doc'))]"
proof -
  let ?f = "filter (\<lambda>d. did d \<noteq> i) (itinerary doc)"
  have len: "length ?f \<le> length (itinerary doc)" by simp
  then have "int (length ?f) * 86400000 \<le> int (length (itinerary doc)) * (86400000::int)"
    by simp
  then have "t + int (length ?f) * 86400000 \<le> maxTime"
    using assms(2) by linarith
  then have "t + (1 - 1 + int (length ?f)) * 86400000 \<le> maxTime"
    by simp
  then obtain ds' where r: "renumber (startDate doc) 1 ?f = Inr ds'"
    using renumber_ok [OF assms(1), of 1 ?f] by auto
  have "map day ds' = [1..int (length ds')]"
    using renumber_days [OF r] renumber_length [OF r] by simp
  then show ?thesis using r len renumber_length [OF r] by (simp add: removeDay_def)
qed

lemma contiguous_snoc:
  assumes "contiguous ds" and "length ds' = length ds + 1"
    and "map day ds' = map day ds @ [int (length ds) + 1]"
  shows "contiguous ds'"
proof -
  have "[1..int (length ds) + 1] = [1..int (length ds)] @ [int (length ds) + 1]"
    by (simp add: upto_rec2 [of 1 "int (length ds) + 1"])
  moreover have "int (length ds') = int (length ds) + 1" using assms(2) by simp
  ultimately show ?thesis using assms(1,3) unfolding contiguous_def by simp
qed

text \<open>
  Claim C1. Take a document whose day numbers are 1..N in order, whose start date is a
  valid date, and a sequence of \<^verbatim>\<open>addDay\<close> and \<^verbatim>\<open>removeDay\<close> calls short enough that
  every date it computes is representable. Then every call returns, and the day numbers
  of the final document are exactly 1..N' in ascending order, N' being its number of
  days.
\<close>

theorem day_numbers_contiguous:
  assumes "Date_parse (startDate doc) = Some t"
    and "contiguous (itinerary doc)"
    and "t + (int (length (itinerary doc)) + int (length calls)) * 86400000 \<le> maxTime"
  shows "\<exists>doc'. run_calls calls doc = Inr doc'
           \<and> map day (itinerary doc') = [1..int (length (itinerary doc'))]"
  using assms
proof (induction calls arbitrary: doc)
  case Nil
  then show ?case by (simp add: contiguous_def)
next
  case (Cons c calls)
  have b: "t + int (length (itinerary doc)) * 86400000 \<le> maxTime"
    using Cons.prems(3) by (simp add: algebra_simps)
  have "\<exists>doc1. run_call c doc = Inr doc1 \<and> startDate doc1 = startDate doc
          \<and> length (itinerary doc1) \<le> length (itinerary doc) + 1
          \<and> contiguous (itinerary doc1)"
  proof (cases c)
    case (AddDay i a)
    from addDay_ok [OF Cons.prems(1) b, of i a] obtain doc1 where
      "addDay i a doc = Inr doc1" "startDate doc1 = startDate doc"
      "length (itinerary doc1) = length (itinerary doc) + 1"
      "map day (itinerary doc1) = map day (itinerary doc) @ [int (length (itinerary doc)) + 1]"
      by blast
    then show ?thesis using AddDay contiguous_snoc [OF Cons.prems(2)]
      by auto
  next
    case (RemoveDay i)
    from removeDay_ok [OF Cons.prems(1) b, of i] show ?thesis using RemoveDay
      by (auto simp: contiguous_def)
  qed
  then obtain doc1 where s: "run_call c doc = Inr doc1" "startDate doc1 = startDate doc"
    "length (itinerary doc1) \<le> length (itinerary doc) + 1" "contiguous (itinerary doc1)"
    by blast
  have "t + (int (length (itinerary doc1)) + int (length calls)) * 86400000 \<le> maxTime"
  proof -
    have "(int (length (itinerary doc1)) + int (length calls)) * 86400000
          \<le> (int (length (itinerary doc)) + int (length (c # calls))) * (86400000::int)"
      using s(3) by simp
    then show ?thesis using Cons.prems(3) by linarith
  qed
  then have "\<exists>doc'. run_calls calls doc1 = Inr doc'
               \<and> map day (itinerary doc') = [1..int (length (itinerary doc'))]"
    using s Cons.prems(1) by (intro Cons.IH) simp_all
  then show ?case using s(1) by simp
qed

text \<open>
  The default document of 2026-11-03, then: add a day, remove the first day, add a day.
\<close>

theorem day_numbers_contiguous_witness:
  "Date_parse (startDate (defaultItinerary 1793700000000 1793700000000 1793700000000
       ''d1'' ''a1'')) = Some 1793664000000
   \<and> contiguous (itinerary (defaultItinerary 1793700000000 1793700000000 1793700000000
       ''d1'' ''a1''))
   \<and> (\<exists>doc'. run_calls [AddDay ''d2'' ''a2'', RemoveDay ''d1'', AddDay ''d3'' ''a3'']
               (defaultItinerary 1793700000000 1793700000000 1793700000000 ''d1'' ''a1'')
             = Inr doc'
           \<and> map day (itinerary doc') = [1..int (length (itinerary doc'))])"
proof -
  let ?doc = "defaultItinerary 1793700000000 1793700000000 1793700000000 ''d1'' ''a1''"
  let ?calls = "[AddDay ''d2'' ''a2'', RemoveDay ''d1'', AddDay ''d3'' ''a3'']"
  have h1: "Date_parse (startDate ?doc) = Some 1793664000000"
    by (simp add: defaultItinerary_def toISODate_sample Date_parse_sample)
  have h2: "contiguous (itinerary ?doc)"
    by (simp add: defaultItinerary_def contiguous_def)
  have h3: "1793664000000 + (int (length (itinerary ?doc)) + int (length ?calls)) * 86400000
            \<le> maxTime"
    by (simp add: defaultItinerary_def maxTime_def)
  show ?thesis using day_numbers_contiguous [OF h1 h2 h3] h1 h2 by blast
qed

section \<open>Changing the start date\<close>

lemma dayDate_in_range:
  assumes "Date_parse s = Some t" "\<bar>t + (k - 1) * 86400000\<bar> \<le> maxTime"
  shows "dayDate s k = Inr (toISODate (t + (k - 1) * 86400000))"
  using assms by (simp add: dayDate_def TimeClip_def)

lemma redate_map:
  assumes "Date_parse v = Some t"
    and "\<forall>d \<in> set ds. \<bar>t + (day d - 1) * 86400000\<bar> \<le> maxTime"
  shows "redate v ds = Inr (map (\<lambda>d. d\<lparr>date := toISODate (t + (day d - 1) * 86400000)\<rparr>) ds)"
  using assms(2) by (induction ds) (simp_all add: dayDate_in_range [OF assms(1)])

text \<open>
  Claim C5. Changing \<^verbatim>\<open>startDate\<close> to a valid date \<open>D\<close> (time value \<open>t\<close>) returns a
  document in which every day's date is the ISO date of \<open>t + (day - 1)\<close> days, computed
  from that day's own number; day numbers, activities and identifiers are unchanged, in
  the same order. The dates must be representable (within the range of Date).
\<close>

theorem startDate_change_redates:
  assumes "Date_parse D = Some t"
    and "\<forall>d \<in> set (itinerary doc). \<bar>t + (day d - 1) * 86400000\<bar> \<le> maxTime"
  shows "\<exists>doc'. handleDetailChange StartDate D doc = Inr doc'
           \<and> startDate doc' = D
           \<and> map date (itinerary doc')
               = map (\<lambda>d. toISODate (t + (day d - 1) * 86400000)) (itinerary doc)
           \<and> map day (itinerary doc') = map day (itinerary doc)
           \<and> map activities (itinerary doc') = map activities (itinerary doc)
           \<and> map did (itinerary doc') = map did (itinerary doc)"
proof (cases "itinerary doc = []")
  case True
  then show ?thesis by (simp add: handleDetailChange_def set_detail_def)
next
  case False
  then show ?thesis
    using redate_map [OF assms]
    by (simp add: handleDetailChange_def set_detail_def comp_def)
qed


text \<open>A three-day trip moved to 2024-02-28: the dates cross the leap day.\<close>

lemma Date_parse_leap: "Date_parse ''2024-02-28'' = Some 1709078400000"
  by code_simp

lemma toISODate_leap:
  "toISODate 1709078400000 = ''2024-02-28''"
  "toISODate 1709164800000 = ''2024-02-29''"
  "toISODate 1709251200000 = ''2024-03-01''"
  by code_simp+

theorem startDate_change_redates_witness:
  "\<exists>doc'. handleDetailChange StartDate ''2024-02-28''
            ((defaultItinerary 1793700000000 1793700000000 1793700000000 ''d1'' ''a1'')
               \<lparr>itinerary :=
                  [\<lparr>did = ''d1'', day = 1, date = ''2026-11-03'', activities = []\<rparr>,
                   \<lparr>did = ''d2'', day = 2, date = ''2026-11-04'', activities = []\<rparr>,
                   \<lparr>did = ''d3'', day = 3, date = ''2026-11-05'', activities = []\<rparr>]\<rparr>)
          = Inr doc'
        \<and> map date (itinerary doc') = [''2024-02-28'', ''2024-02-29'', ''2024-03-01'']
        \<and> map day (itinerary doc') = [1, 2, 3]"
proof -
  let ?doc = "(defaultItinerary 1793700000000 1793700000000 1793700000000 ''d1'' ''a1'')
               \<lparr>itinerary :=
                  [\<lparr>did = ''d1'', day = 1, date = ''2026-11-03'', activities = []\<rparr>,
                   \<lparr>did = ''d2'', day = 2, date = ''2026-11-04'', activities = []\<rparr>,
                   \<lparr>did = ''d3'', day = 3, date = ''2026-11-05'', activities = []\<rparr>]\<rparr>"
  have h: "\<forall>d \<in> set (itinerary ?doc). \<bar>1709078400000 + (day d - 1) * 86400000\<bar> \<le> maxTime"
    by (simp add: maxTime_def)
  from startDate_change_redates [OF Date_parse_leap h] obtain doc' where
    r: "handleDetailChange StartDate ''2024-02-28'' ?doc = Inr doc'" and
    d: "map date (itinerary doc')
        = map (\<lambda>d. toISODate (1709078400000 + (day d - 1) * 86400000)) (itinerary ?doc)" and
    n: "map day (itinerary doc') = map day (itinerary ?doc)"
    by blast
  have d': "map date (itinerary doc') = [''2024-02-28'', ''2024-02-29'', ''2024-03-01'']"
    using d by (simp add: toISODate_leap)
  have n': "map day (itinerary doc') = [1, 2, 3]"
    using n by simp
  show ?thesis by (rule exI [of _ doc']) (simp only: r d' n')
qed


section \<open>The budget handler\<close>

lemma map_of_replace_prop:
  "map_of (replace_prop k v ps) k'
   = (if k' = k \<and> map_of ps k \<noteq> None then Some v else map_of ps k')"
  by (induction ps) auto

lemma map_of_insert_prop:
  assumes "map_of ps k = None"
  shows "map_of (takeWhile P ps @ (k, v) # dropWhile P ps) k'
         = (if k' = k then Some v else map_of ps k')"
proof -
  have a: "(map_of (dropWhile P ps) ++ map_of (takeWhile P ps)) k' = map_of ps k'"
    using map_of_append [of "takeWhile P ps" "dropWhile P ps"] by simp
  have "k \<notin> fst ` set (takeWhile P ps)"
    using assms set_takeWhileD [of _ P ps] by (force simp: map_of_eq_None_iff)
  then have b: "map_of (takeWhile P ps) k = None"
    by (simp add: map_of_eq_None_iff)
  show ?thesis
  proof (cases "k' = k")
    case True
    then show ?thesis using b by (simp add: map_add_def)
  next
    case False
    then show ?thesis using a by (auto simp: map_add_def split: option.splits)
  qed
qed

lemma map_of_snoc:
  "map_of (ps @ [(k, v)]) k'
   = (case map_of ps k' of Some x \<Rightarrow> Some x | None \<Rightarrow> if k' = k then Some v else None)"
  by (auto simp: map_add_def split: option.splits)

lemma set_prop_cases:
  "set_prop k v ps
   = (if map_of ps k \<noteq> None then replace_prop k v ps
      else
        (case array_index k of
           Some i \<Rightarrow> takeWhile (\<lambda>p. index_below i (fst p)) ps
                     @ (k, v) # dropWhile (\<lambda>p. index_below i (fst p)) ps
         | None \<Rightarrow> ps @ [(k, v)]))"
  by (simp add: set_prop_def map_of_eq_None_iff)

lemma map_of_set_prop_same: "map_of (set_prop k v ps) k = Some v"
proof (cases "map_of ps k")
  case None
  then show ?thesis
    by (cases "array_index k")
      (simp_all add: set_prop_cases map_of_insert_prop [OF None] map_of_snoc del: map_of_append)
next
  case (Some w)
  then show ?thesis by (simp add: set_prop_cases map_of_replace_prop)
qed

lemma map_of_set_prop_other:
  assumes "k' \<noteq> k"
  shows "map_of (set_prop k v ps) k' = map_of ps k'"
proof (cases "map_of ps k")
  case None
  then show ?thesis
    using assms
    by (cases "array_index k")
      (simp_all add: set_prop_cases map_of_insert_prop [OF None] map_of_snoc del: map_of_append
        split: option.splits)
next
  case (Some w)
  then show ?thesis using assms by (simp add: set_prop_cases map_of_replace_prop)
qed

lemma set_prop_empty: "set_prop k v [] = [(k, v)]"
  by (simp add: set_prop_def split: option.splits)

lemma set_prop_absent:
  assumes "map_of ps k = None"
  shows "set_prop k v ps
         = (case array_index k of
              None \<Rightarrow> ps @ [(k, v)]
            | Some i \<Rightarrow> takeWhile (\<lambda>p. index_below i (fst p)) ps
                        @ (k, v) # dropWhile (\<lambda>p. index_below i (fst p)) ps)"
  using assms by (simp add: set_prop_cases split: option.splits)

text \<open>
  Claim C4. For each of the four fixed categories and each of the fields
  \<^verbatim>\<open>estimated\<close> and \<^verbatim>\<open>actual\<close>, a raw value that \<^verbatim>\<open>parseFloat\<close> cannot read (NaN)
  stores exactly the number 0, not NaN; the handler is total, so nothing is raised.
\<close>

theorem setBudgetAmount_unparsable:
  assumes "categoryKey \<in> {''flights'', ''accommodation'', ''activities'', ''miscellaneous''}"
    and "field \<in> {''estimated'', ''actual''}"
    and "parseFloat rawValue = NaN"
  shows "amount (setBudgetAmount doc categoryKey field rawValue) categoryKey field = Some (Num 0)"
proof -
  have k: "categoryKey \<noteq> ''currency''" using assms(1) by auto
  have f: "field \<noteq> []" using assms(2) by auto
  show ?thesis
    using k f assms(3)
    by (simp add: setBudgetAmount_def handleBudgetChange_def amount_def js_or_def
        map_of_set_prop_same Let_def)
qed

lemma parseFloat_abc: "parseFloat ''abc'' = NaN"
  by code_simp

theorem setBudgetAmount_unparsable_witness:
  "amount (setBudgetAmount (defaultItinerary 1793700000000 1793700000000 1793700000000 ''d1'' ''a1'')
       ''flights'' ''estimated'' ''abc'') ''flights'' ''estimated'' = Some (Num 0)"
  using setBudgetAmount_unparsable [of "''flights''" "''estimated''" "''abc''"] parseFloat_abc
  by simp

text \<open>
  Claim C3 as stated (an unknown category key is a no-op) fails: on the default document
  the key \<^verbatim>\<open>food\<close> changes the document.
\<close>

theorem setBudgetAmount_unknown_key_counterexample:
  "setBudgetAmount (defaultItinerary 1793700000000 1793700000000 1793700000000 ''d1'' ''a1'')
       ''food'' ''estimated'' ''12''
   \<noteq> defaultItinerary 1793700000000 1793700000000 1793700000000 ''d1'' ''a1''"
proof -
  have "set_prop ''food'' v cs \<noteq> cs" if "map_of cs ''food'' = None" for v :: category and cs
  proof -
    have "array_index ''food'' = None" by code_simp
    then have "set_prop ''food'' v cs = cs @ [(''food'', v)]"
      using that by (simp add: set_prop_absent)
    then show ?thesis by simp
  qed
  then show ?thesis
    by (simp add: setBudgetAmount_def handleBudgetChange_def defaultItinerary_def Let_def)
qed

text \<open>
  Claim C3, amended. For a key that is neither \<^verbatim>\<open>currency\<close> nor a category of the
  document, \<^verbatim>\<open>setBudgetAmount\<close> with a non-empty field adds a new category that holds
  only this field, with the parsed amount (0 when it does not parse), and leaves the rest
  of the document as it is. The new category is enumerated last, unless its key is an
  array index such as \<^verbatim>\<open>1\<close>: then it comes after the array indices below it and
  before all other categories. The result differs from the document. With an empty
  field the document is returned unchanged.
\<close>

theorem setBudgetAmount_unknown_key:
  assumes "categoryKey \<noteq> ''currency''"
    and "map_of (categories (budget doc)) categoryKey = None"
  shows "(field \<noteq> [] \<longrightarrow>
            setBudgetAmount doc categoryKey field rawValue
            = doc\<lparr>budget := (budget doc)\<lparr>categories :=
                (case array_index categoryKey of
                   None \<Rightarrow>
                     categories (budget doc)
                     @ [(categoryKey, [(field, js_or (parseFloat rawValue) (Num 0))])]
                 | Some i \<Rightarrow>
                     takeWhile (\<lambda>p. index_below i (fst p)) (categories (budget doc))
                     @ (categoryKey, [(field, js_or (parseFloat rawValue) (Num 0))])
                       # dropWhile (\<lambda>p. index_below i (fst p)) (categories (budget doc)))\<rparr>\<rparr>
            \<and> mset (categories (budget (setBudgetAmount doc categoryKey field rawValue)))
              = add_mset (categoryKey, [(field, js_or (parseFloat rawValue) (Num 0))])
                  (mset (categories (budget doc)))
            \<and> setBudgetAmount doc categoryKey field rawValue \<noteq> doc)
         \<and> setBudgetAmount doc categoryKey [] rawValue = doc"
proof -
  define new where "new = (categoryKey, [(field, js_or (parseFloat rawValue) (Num 0))])"
  define cs where "cs = categories (budget doc)"
  define cs' where "cs' = (case array_index categoryKey of
      None \<Rightarrow> cs @ [new]
    | Some i \<Rightarrow> takeWhile (\<lambda>p. index_below i (fst p)) cs
                @ new # dropWhile (\<lambda>p. index_below i (fst p)) cs)"
  have e: "setBudgetAmount doc categoryKey field rawValue
           = doc\<lparr>budget := (budget doc)\<lparr>categories := cs'\<rparr>\<rparr>" if "field \<noteq> []"
    using assms that
    by (simp add: setBudgetAmount_def handleBudgetChange_def Let_def set_prop_absent
        set_prop_empty cs'_def cs_def new_def split: option.splits)
  have "mset (takeWhile P cs @ new # dropWhile P cs) = add_mset new (mset cs)" for P
  proof -
    have "mset (takeWhile P cs) + mset (dropWhile P cs) = mset cs"
      using mset_append [of "takeWhile P cs" "dropWhile P cs"] by simp
    then show ?thesis by simp
  qed
  then have ms: "mset cs' = add_mset new (mset cs)"
    by (simp add: cs'_def split: option.splits)
  then have "size (mset cs') \<noteq> size (mset cs)" by simp
  then have ne: "cs' \<noteq> cs" by auto
  have d: "doc\<lparr>budget := (budget doc)\<lparr>categories := cs'\<rparr>\<rparr> \<noteq> doc"
  proof
    assume "doc\<lparr>budget := (budget doc)\<lparr>categories := cs'\<rparr>\<rparr> = doc"
    then have "categories (budget (doc\<lparr>budget := (budget doc)\<lparr>categories := cs'\<rparr>\<rparr>)) = cs"
      by (simp only: cs_def)
    then show False using ne by simp
  qed
  have z: "setBudgetAmount doc categoryKey [] rawValue = doc"
    using assms(1) by (simp add: setBudgetAmount_def handleBudgetChange_def)
  show ?thesis
    using e ms d z unfolding cs'_def cs_def new_def by simp
qed

lemma parseFloat_12: "parseFloat ''12'' = Num 12"
  by code_simp

lemma array_index_samples: "array_index ''food'' = None" "array_index ''1'' = Some 1"
  by code_simp+

lemma index_below_samples:
  "\<not> index_below 1 ''flights''" "\<not> index_below 1 ''accommodation''"
  "\<not> index_below 1 ''activities''" "\<not> index_below 1 ''miscellaneous''"
  by code_simp+

text \<open>
  On the default document the key \<^verbatim>\<open>food\<close> becomes the last category and the key
  \<^verbatim>\<open>1\<close> the first.
\<close>

theorem setBudgetAmount_unknown_key_witness:
  "map fst (categories (budget (setBudgetAmount
       (defaultItinerary 1793700000000 1793700000000 1793700000000 ''d1'' ''a1'')
       ''food'' ''estimated'' ''12'')))
   = [''flights'', ''accommodation'', ''activities'', ''miscellaneous'', ''food'']
   \<and> amount (setBudgetAmount
       (defaultItinerary 1793700000000 1793700000000 1793700000000 ''d1'' ''a1'')
       ''food'' ''estimated'' ''12'') ''food'' ''estimated'' = Some (Num 12)
   \<and> map fst (categories (budget (setBudgetAmount
       (defaultItinerary 1793700000000 1793700000000 1793700000000 ''d1'' ''a1'')
       ''1'' ''estimated'' ''12'')))
     = [''1'', ''flights'', ''accommodation'', ''activities'', ''miscellaneous'']"
proof -
  let ?doc = "defaultItinerary 1793700000000 1793700000000 1793700000000 ''d1'' ''a1''"
  have h1: "''food'' \<noteq> ''currency''" by simp
  have h2: "map_of (categories (budget ?doc)) ''food'' = None"
    by (simp add: defaultItinerary_def)
  have g1: "''1'' \<noteq> ''currency''" by simp
  have g2: "map_of (categories (budget ?doc)) ''1'' = None"
    by (simp add: defaultItinerary_def)
  have h3: "''estimated'' \<noteq> []" by simp
  note food = setBudgetAmount_unknown_key [OF h1 h2, of "''estimated''" "''12''",
      THEN conjunct1, rule_format, OF h3, THEN conjunct1]
  note one = setBudgetAmount_unknown_key [OF g1 g2, of "''estimated''" "''12''",
      THEN conjunct1, rule_format, OF h3, THEN conjunct1]
  have a: "map fst (categories (budget (setBudgetAmount ?doc ''food'' ''estimated'' ''12'')))
           = [''flights'', ''accommodation'', ''activities'', ''miscellaneous'', ''food'']"
    unfolding food by (simp add: array_index_samples defaultItinerary_def)
  have b: "amount (setBudgetAmount ?doc ''food'' ''estimated'' ''12'') ''food'' ''estimated''
           = Some (Num 12)"
    unfolding food
    by (simp add: array_index_samples parseFloat_12 js_or_def amount_def defaultItinerary_def)
  have c: "map fst (categories (budget (setBudgetAmount ?doc ''1'' ''estimated'' ''12'')))
           = [''1'', ''flights'', ''accommodation'', ''activities'', ''miscellaneous'']"
    unfolding one by (simp add: array_index_samples index_below_samples defaultItinerary_def)
  show ?thesis using a b c by simp
qed

lemma parseFloat_minus5: "parseFloat ''-5'' = Num (- 5)"
  by code_simp

text \<open>
  Claim C6 (amounts stay non-negative) does not hold of the handler: the raw value
  \<^verbatim>\<open>-5\<close>, which the amount inputs accept when typed, is stored as it is.
\<close>

theorem setBudgetAmount_negative:
  "amount (setBudgetAmount (defaultItinerary 1793700000000 1793700000000 1793700000000 ''d1'' ''a1'')
       ''flights'' ''actual'' ''-5'') ''flights'' ''actual'' = Some (Num (- 5))"
  by (simp add: setBudgetAmount_def handleBudgetChange_def amount_def js_or_def
      map_of_set_prop_same Let_def parseFloat_minus5)


section \<open>The totals\<close>

subsection \<open>Whole numbers are added without rounding\<close>










subsection \<open>The totals of a budget of four categories\<close>



text \<open>
  The default budget: whole numbers, totals 1600 and 0, \<^verbatim>\<open>On Track\<close>. And a budget in
  which the estimate 0.3 meets the actual amounts 0.1 and 0.2, as the doubles that
  \<^verbatim>\<open>parseFloat\<close> makes of them: the total actual is 0.30000000000000004, above 0.3, and
  the status is \<^verbatim>\<open>Over Budget\<close>.
\<close>

lemma parseFloat_tenths:
  "parseFloat ''0.1'' = Num (3602879701896397 / 36028797018963968)"
  "parseFloat ''0.2'' = Num (3602879701896397 / 18014398509481984)"
  "parseFloat ''0.3'' = Num (5404319552844595 / 18014398509481984)"
  by code_simp+



section \<open>The snapshot listener: fallbacks\<close>

text \<open>
  Claim C9, amended. When the record does not exist, or its \<^verbatim>\<open>itineraryData\<close> is absent or
  empty, the callback calls \<^verbatim>\<open>saveItinerary\<close> once, with the default document, and leaves
  the local state as it is. When the payload does not parse, the local state becomes the
  default document, nothing is raised, and \<^verbatim>\<open>saveItinerary\<close> is not called.
\<close>

theorem listener_fallbacks:
  "((docSnap = NotExists \<or> docSnap = Exists None \<or> docSnap = Exists (Some []))
      \<longrightarrow> onSnapshot_listener parse defaultDoc docSnap prev
           = \<lparr>tripDetails = prev, saved = [defaultDoc]\<rparr>)
   \<and> ((s \<noteq> [] \<and> parse s = None)
      \<longrightarrow> onSnapshot_listener parse defaultDoc (Exists (Some s)) prev
           = \<lparr>tripDetails = Document defaultDoc, saved = []\<rparr>)"
  by (auto simp: onSnapshot_listener_def)

section \<open>Frame conditions\<close>

text \<open>
  Claim C10. The itinerary mutations (\<^verbatim>\<open>handleActivityChange\<close>, \<^verbatim>\<open>addActivity\<close>,
  \<^verbatim>\<open>removeActivity\<close>, \<^verbatim>\<open>addDay\<close>, \<^verbatim>\<open>removeDay\<close>) return a document with the same
  budget; \<^verbatim>\<open>addDay\<close> and \<^verbatim>\<open>removeDay\<close> return whenever the start date is valid and the
  dates are representable. The budget mutations leave title, destination, notes, start
  date, end date and itinerary unchanged.
\<close>

theorem mutations_frame:
  "budget (handleActivityChange dayId activityId field v doc) = budget doc
   \<and> budget (addActivity uuid dayId doc) = budget doc
   \<and> budget (removeActivity dayId activityId doc) = budget doc
   \<and> (\<forall>doc'. addDay dayUuid activityUuid doc = Inr doc' \<longrightarrow> budget doc' = budget doc)
   \<and> (\<forall>doc'. removeDay dayId doc = Inr doc' \<longrightarrow> budget doc' = budget doc)
   \<and> ((Date_parse (startDate doc) = Some t
        \<and> t + int (length (itinerary doc)) * 86400000 \<le> maxTime)
       \<longrightarrow> (\<exists>doc'. addDay dayUuid activityUuid doc = Inr doc')
           \<and> (\<exists>doc'. removeDay dayId doc = Inr doc'))
   \<and> (let doc' = setBudgetCurrency doc cur in
        title doc' = title doc \<and> destination doc' = destination doc
        \<and> notesText doc' = notesText doc \<and> startDate doc' = startDate doc
        \<and> endDate doc' = endDate doc \<and> itinerary doc' = itinerary doc)
   \<and> (let doc' = setBudgetAmount doc categoryKey bfield rawValue in
        title doc' = title doc \<and> destination doc' = destination doc
        \<and> notesText doc' = notesText doc \<and> startDate doc' = startDate doc
        \<and> endDate doc' = endDate doc \<and> itinerary doc' = itinerary doc)"
proof -
  have a: "\<forall>doc'. addDay dayUuid activityUuid doc = Inr doc' \<longrightarrow> budget doc' = budget doc"
    by (auto simp: addDay_def Let_def split: sum.splits)
  have r: "\<forall>doc'. removeDay dayId doc = Inr doc' \<longrightarrow> budget doc' = budget doc"
    by (auto simp: removeDay_def split: sum.splits)
  have e: "(Date_parse (startDate doc) = Some t
        \<and> t + int (length (itinerary doc)) * 86400000 \<le> maxTime)
       \<longrightarrow> (\<exists>doc'. addDay dayUuid activityUuid doc = Inr doc')
           \<and> (\<exists>doc'. removeDay dayId doc = Inr doc')"
    using addDay_ok [of doc t dayUuid activityUuid] removeDay_ok [of doc t dayId] by blast
  have c: "let doc' = setBudgetCurrency doc cur in
        title doc' = title doc \<and> destination doc' = destination doc
        \<and> notesText doc' = notesText doc \<and> startDate doc' = startDate doc
        \<and> endDate doc' = endDate doc \<and> itinerary doc' = itinerary doc"
    by (simp add: setBudgetCurrency_def handleBudgetChange_def)
  have m: "let doc' = setBudgetAmount doc categoryKey bfield rawValue in
        title doc' = title doc \<and> destination doc' = destination doc
        \<and> notesText doc' = notesText doc \<and> startDate doc' = startDate doc
        \<and> endDate doc' = endDate doc \<and> itinerary doc' = itinerary doc"
    by (simp add: setBudgetAmount_def handleBudgetChange_def Let_def split: option.splits)
  have i: "budget (handleActivityChange dayId activityId field v doc) = budget doc"
    "budget (addActivity uuid dayId doc) = budget doc"
    "budget (removeActivity dayId activityId doc) = budget doc"
    by (simp_all add: handleActivityChange_def addActivity_def removeActivity_def)
  show ?thesis using a r e c m i by (simp only: simp_thms)
qed


text \<open>The default document of 2026-11-03; adding a day returns, and the budget is the same.\<close>

theorem mutations_frame_witness:
  "\<exists>doc'. addDay ''d2'' ''a2''
            (defaultItinerary 1793700000000 1793700000000 1793700000000 ''d1'' ''a1'') = Inr doc'
        \<and> budget doc'
          = budget (defaultItinerary 1793700000000 1793700000000 1793700000000 ''d1'' ''a1'')"
proof -
  let ?doc = "defaultItinerary 1793700000000 1793700000000 1793700000000 ''d1'' ''a1''"
  have h: "Date_parse (startDate ?doc) = Some 1793664000000
           \<and> 1793664000000 + int (length (itinerary ?doc)) * 86400000 \<le> maxTime"
    by (simp add: defaultItinerary_def toISODate_sample Date_parse_sample maxTime_def)
  note fr = mutations_frame [where doc = ?doc and dayUuid = "''d2''" and activityUuid = "''a2''"
      and t = 1793664000000]
  note a = fr [THEN conjunct2, THEN conjunct2, THEN conjunct2, THEN conjunct1]
  note e = fr [THEN conjunct2, THEN conjunct2, THEN conjunct2, THEN conjunct2, THEN conjunct2,
      THEN conjunct1]
  from e [THEN mp, OF h, THEN conjunct1] obtain doc' where
    r: "addDay ''d2'' ''a2'' ?doc = Inr doc'" ..
  have b: "budget doc' = budget ?doc"
    by (rule a [rule_format, OF r])
  show ?thesis by (rule exI [of _ doc']) (simp only: r b)
qed

section \<open>The snapshot listener: examples\<close>

lemma JSON_parse_not_json: "JSON_parse ''{not json'' = None"
  by code_simp

text \<open>
  Claim C9 as stated (a corrupt payload makes the gateway call save with the default
  document) fails: for a payload that does not parse, no call of \<^verbatim>\<open>saveItinerary\<close> is made.
\<close>

theorem listener_corrupt_counterexample:
  "saved (onSnapshot_listener JSON_parse
       (defaultItinerary 1793700000000 1793700000000 1793700000000 ''d1'' ''a1'')
       (Exists (Some ''{not json''))
       (Document (defaultItinerary 1793700000000 1793700000000 1793700000000 ''d1'' ''a1''))) = []"
  by (simp add: onSnapshot_listener_def JSON_parse_not_json)

theorem listener_fallbacks_witness:
  "onSnapshot_listener JSON_parse
       (defaultItinerary 1793700000000 1793700000000 1793700000000 ''d1'' ''a1'') NotExists
       (Document (defaultItinerary 0 0 0 ''d0'' ''a0''))
     = \<lparr>tripDetails = Document (defaultItinerary 0 0 0 ''d0'' ''a0''),
        saved = [defaultItinerary 1793700000000 1793700000000 1793700000000 ''d1'' ''a1'']\<rparr>
   \<and> onSnapshot_listener JSON_parse
       (defaultItinerary 1793700000000 1793700000000 1793700000000 ''d1'' ''a1'')
       (Exists (Some ''{not json'')) (Document (defaultItinerary 0 0 0 ''d0'' ''a0''))
     = \<lparr>tripDetails = Document (defaultItinerary 1793700000000 1793700000000 1793700000000
          ''d1'' ''a1''),
        saved = []\<rparr>"
  using listener_fallbacks [of NotExists JSON_parse
      "defaultItinerary 1793700000000 1793700000000 1793700000000 ''d1'' ''a1''"
      "Document (defaultItinerary 0 0 0 ''d0'' ''a0'')" "''{not json''"]
  by (simp add: JSON_parse_not_json)

section \<open>The default document and its first added day\<close>

lemma dayDate_sample: "dayDate ''2026-11-03'' 2 = Inr ''2026-11-04''"
  by code_simp

lemma toISODate_sample_next:
  "toISODate 1793872800000 = ''2026-11-05''"
  "toISODate 1793786400000 = ''2026-11-04''"
  by code_simp+

text \<open>The printed date depends on the day of a time value only.\<close>

lemma toISODate_whole_days:
  "toISODate (t div msPerDay * msPerDay + k * 86400000) = toISODate (t + k * 86400000)"
proof -
  have "(t div msPerDay * msPerDay + k * msPerDay) div msPerDay = t div msPerDay + k"
    by (simp add: msPerDay_def)
  moreover have "(t + k * msPerDay) div msPerDay = t div msPerDay + k"
    by (simp add: msPerDay_def)
  ultimately have "(t div msPerDay * msPerDay + k * 86400000) div msPerDay
      = (t + k * 86400000) div msPerDay"
    by (simp add: msPerDay_def)
  then show ?thesis
    unfolding toISODate_def by (simp only:)
qed

text \<open>
  Claim C2 as stated (adding a day to the default document yields three days) fails: the
  default itinerary has one day, so one call of \<^verbatim>\<open>addDay\<close> yields two.
\<close>

theorem default_addDay_counterexample:
  "map_sum id (length \<circ> itinerary)
     (addDay ''d2'' ''a2''
        (defaultItinerary 1793700000000 1793700000000 1793700000000 ''d1'' ''a1''))
   \<noteq> Inr 3"
  by (simp add: addDay_def defaultItinerary_def toISODate_sample dayDate_sample Let_def)

text \<open>
  Claim C2, amended. The default document starts today and ends two days later; its
  itinerary has a single day, day 1, dated today, with the one activity
  \<^verbatim>\<open>Arrive at Airport\<close> at 09:00; the budget is in USD with estimates 600, 500, 400 and
  100 and all actual amounts 0. One call of \<^verbatim>\<open>addDay\<close> yields two days: the new day has
  number 2, is dated one day after the start date, and holds exactly one activity,
  \<^verbatim>\<open>New Day Activity\<close> at 09:00.
\<close>

theorem default_document_addDay:
  assumes "- maxTime \<le> now1" and "now1 + 86400000 \<le> maxTime"
  shows "defaultItinerary now1 now2 now3 u1 u2
         = \<lparr>title = ''Vigovia Trip Itinerary'', destination = ''Lisbon, Portugal'',
            startDate = toISODate now1, endDate = toISODate (now2 + 2 * 86400000),
            notesText = ''Remember to pack comfortable walking shoes and charge your camera battery!'',
            itinerary = [\<lparr>did = u1, day = 1, date = toISODate now3,
                          activities = [\<lparr>aid = u2, time = ''09:00'',
                                         description = ''Arrive at Airport''\<rparr>]\<rparr>],
            budget = \<lparr>currency = ''USD'',
                       categories =
                         [(''flights'', [(''estimated'', Num 600), (''actual'', Num 0)]),
                          (''accommodation'', [(''estimated'', Num 500), (''actual'', Num 0)]),
                          (''activities'', [(''estimated'', Num 400), (''actual'', Num 0)]),
                          (''miscellaneous'', [(''estimated'', Num 100), (''actual'', Num 0)])]\<rparr>\<rparr>
         \<and> addDay u3 u4 (defaultItinerary now1 now2 now3 u1 u2)
           = Inr ((defaultItinerary now1 now2 now3 u1 u2)
                   \<lparr>itinerary :=
                      [\<lparr>did = u1, day = 1, date = toISODate now3,
                        activities = [\<lparr>aid = u2, time = ''09:00'',
                                       description = ''Arrive at Airport''\<rparr>]\<rparr>,
                       \<lparr>did = u3, day = 2, date = toISODate (now1 + 86400000),
                        activities = [\<lparr>aid = u4, time = ''09:00'',
                                       description = ''New Day Activity''\<rparr>]\<rparr>]\<rparr>)"
proof -
  define t where "t = now1 div msPerDay * msPerDay"
  have "now1 \<le> maxTime" using assms(2) by simp
  with assms(1) have p: "Date_parse (toISODate now1) = Some t"
    unfolding t_def by (rule Date_parse_toISODate)
  have "t \<le> now1" by (simp add: t_def msPerDay_def)
  then have "t + (2 - 1) * 86400000 \<le> maxTime" using assms(2) by simp
  with p have "dayDate (toISODate now1) 2 = Inr (toISODate (t + (2 - 1) * 86400000))"
    by (intro dayDate_ok) simp_all
  also have "toISODate (t + (2 - 1) * 86400000) = toISODate (now1 + 86400000)"
    using toISODate_whole_days [of now1 1] by (simp add: t_def)
  finally show ?thesis
    by (simp add: addDay_def defaultItinerary_def Let_def)
qed

theorem default_document_addDay_witness:
  "map date (itinerary (defaultItinerary 1793700000000 1793700000000 1793700000000 ''d1'' ''a1''))
     = [''2026-11-03'']
   \<and> endDate (defaultItinerary 1793700000000 1793700000000 1793700000000 ''d1'' ''a1'')
     = ''2026-11-05''
   \<and> map_sum id (map date \<circ> itinerary)
       (addDay ''d2'' ''a2''
          (defaultItinerary 1793700000000 1793700000000 1793700000000 ''d1'' ''a1''))
     = Inr [''2026-11-03'', ''2026-11-04'']"
proof -
  have h1: "- maxTime \<le> 1793700000000"
    by (simp add: maxTime_def)
  have h2: "(1793700000000::int) + 86400000 \<le> maxTime"
    by (simp add: maxTime_def)
  note th = default_document_addDay [OF h1 h2, of 1793700000000 1793700000000 "''d1''" "''a1''"
      "''d2''" "''a2''"]
  show ?thesis
    unfolding th [THEN conjunct2]
    by (simp add: defaultItinerary_def toISODate_sample toISODate_sample_next)
qed


section \<open>The JSON round trip of a value\<close>

subsection \<open>Digits\<close>

lemma is_digit_digit_char: "is_digit (digit_char n)"
  by (simp add: is_digit_def digit_of_digit_char)

lemma is_digit_not_special:
  assumes "is_digit c"
  shows "c \<noteq> CHR ''-''" "c \<noteq> CHR ''.''" "c \<noteq> CHR ''e''" "c \<noteq> CHR ''E''" "c \<noteq> CHR ''+''"
    "c \<noteq> CHR '',''" "c \<noteq> CHR '']''" "c \<noteq> CHR ''}''" "c \<noteq> CHR ''{''" "c \<noteq> CHR ''[''"
    "c \<noteq> CHR 0x22" "c \<noteq> CHR ''n''" "c \<noteq> CHR ''t''" "c \<noteq> CHR ''f''" "\<not> is_json_ws c"
  using assms
  by (auto simp: is_digit_def digit_of_def Let_def is_json_ws_def split: if_splits)

lemma pad_digits: "\<forall>c \<in> set (pad w k). is_digit c"
  by (induction w arbitrary: k) (auto simp: is_digit_digit_char)


lemma int_string_digits: "\<forall>c \<in> set (int_string n). is_digit c"
  by (induction n rule: int_string.induct)
    (subst int_string.simps, auto simp: is_digit_digit_char)

lemma int_string_nonempty: "int_string n \<noteq> []"
  by (subst int_string.simps) simp

lemma digits_val_int_string:
  "0 \<le> n \<Longrightarrow> digits_val 0 (int_string n) = Some n"
proof (induction n rule: int_string.induct)
  case (1 n)
  show ?case
  proof (cases "n < 10")
    case True
    then show ?thesis using "1.prems"
      by (subst int_string.simps) (simp add: digit_of_digit_char)
  next
    case False
    then have "digits_val 0 (int_string (n div 10)) = Some (n div 10)"
      using "1.IH" "1.prems" by simp
    then show ?thesis using False
      by (subst int_string.simps) (simp add: digits_val_append digit_of_digit_char)
  qed
qed

lemma digit_char_zero: "0 \<le> n \<Longrightarrow> n < 10 \<Longrightarrow> digit_char n = CHR ''0'' \<Longrightarrow> n = 0"
proof -
  assume a: "0 \<le> n" "n < 10" "digit_char n = CHR ''0''"
  have "digit_of (digit_char n) = Some (n mod 10)" by (rule digit_of_digit_char)
  moreover have "digit_of (CHR ''0'') = Some 0" by (simp add: digit_of_def)
  ultimately show "n = 0" using a by simp
qed

lemma hd_int_string:
  "0 < n \<Longrightarrow> hd (int_string n) \<noteq> CHR ''0''"
proof (induction n rule: int_string.induct)
  case (1 n)
  show ?case
  proof (cases "n < 10")
    case True
    then show ?thesis using "1.prems" digit_char_zero [of n]
      by (subst int_string.simps) auto
  next
    case False
    then have "hd (int_string (n div 10)) \<noteq> CHR ''0''"
      using "1.IH" by simp
    then show ?thesis using False int_string_nonempty [of "n div 10"]
      by (subst int_string.simps) simp
  qed
qed

lemma length_int_string_one: "0 \<le> n \<Longrightarrow> 1 < length (int_string n) \<Longrightarrow> 0 < n"
  by (subst (asm) int_string.simps) (auto split: if_splits)

lemma takeWhile_digits:
  assumes "\<forall>c \<in> set ds. is_digit c" and "rest = [] \<or> \<not> is_digit (hd rest)"
  shows "takeWhile is_digit (ds @ rest) = ds" and "dropWhile is_digit (ds @ rest) = rest"
  using assms by (induction ds) (auto simp: takeWhile_eq_Nil_iff dropWhile_eq_self_iff)


subsection \<open>Numbers\<close>

lemma fraction_digits_Some:
  "fraction_digits f j r = Some k \<Longrightarrow> j \<le> k \<and> is_int_rat (r * 10 ^ (k - j))"
proof (induction f arbitrary: j r)
  case 0
  then show ?case by (simp split: if_splits)
next
  case (Suc f)
  show ?case
  proof (cases "is_int_rat r")
    case True
    then show ?thesis using Suc.prems by simp
  next
    case False
    then have "fraction_digits f (Suc j) (r * 10) = Some k" using Suc.prems by simp
    then have "Suc j \<le> k" and i: "is_int_rat (r * 10 * 10 ^ (k - Suc j))"
      using Suc.IH by blast+
    moreover from \<open>Suc j \<le> k\<close> have "k - j = Suc (k - Suc j)" by simp
    ultimately show ?thesis by (simp add: mult.assoc)
  qed
qed

lemma terminator_not_digit: "terminator rest \<Longrightarrow> rest = [] \<or> \<not> is_digit (hd rest)"
  using is_digit_not_special(6,7,8) by (auto simp: terminator_def)

lemma fraction_part_terminator: "terminator rest \<Longrightarrow> fraction_part rest = Some ([], rest)"
  by (cases rest) (auto simp: terminator_def fraction_part_def)

lemma exponent_part_terminator: "terminator rest \<Longrightarrow> exponent_part rest = Some (1, rest)"
  by (cases rest) (auto simp: terminator_def exponent_part_def)

lemma digits_rat_int_string: "0 \<le> n \<Longrightarrow> digits_rat (int_string n) = of_int n"
  by (simp add: digits_rat_def digits_val_int_string)

lemma digits_rat_pad: "0 \<le> m \<Longrightarrow> m < 10 ^ k \<Longrightarrow> digits_rat (pad k m) = of_int m"
  by (simp add: digits_rat_def digits_val_pad)

lemma digits_rat_Nil: "digits_rat [] = 0"
  by (simp add: digits_rat_def)

lemma number_body_scan:
  assumes "0 \<le> M" and "terminator rest"
  shows "takeWhile is_digit (number_body M k @ rest) = int_string (M div 10 ^ k)"
    and "fraction_part (dropWhile is_digit (number_body M k @ rest))
         = Some (if k = 0 then [] else pad k (M mod 10 ^ k), rest)"
proof -
  let ?ip = "int_string (M div 10 ^ k)"
  let ?tail = "(if k = 0 then [] else CHR ''.'' # pad k (M mod 10 ^ k)) @ rest"
  have nb: "number_body M k @ rest = ?ip @ ?tail" by (simp add: number_body_def)
  have t: "?tail = [] \<or> \<not> is_digit (hd ?tail)"
    using terminator_not_digit [OF assms(2)] is_digit_not_special(2) by auto
  show "takeWhile is_digit (number_body M k @ rest) = ?ip"
    unfolding nb using int_string_digits t by (rule takeWhile_digits(1))
  have d: "dropWhile is_digit (number_body M k @ rest) = ?tail"
    unfolding nb using int_string_digits t by (rule takeWhile_digits(2))
  show "fraction_part (dropWhile is_digit (number_body M k @ rest))
         = Some (if k = 0 then [] else pad k (M mod 10 ^ k), rest)"
  proof (cases "k = 0")
    case True
    then show ?thesis unfolding d using fraction_part_terminator [OF assms(2)] by simp
  next
    case False
    have "takeWhile is_digit (pad k (M mod 10 ^ k) @ rest) = pad k (M mod 10 ^ k)"
      and "dropWhile is_digit (pad k (M mod 10 ^ k) @ rest) = rest"
      using pad_digits terminator_not_digit [OF assms(2)] by (rule takeWhile_digits)+
    moreover have "pad k (M mod 10 ^ k) \<noteq> []"
      using False by (metis length_pad length_0_conv)
    ultimately show ?thesis unfolding d using False
      by (simp add: fraction_part_def Let_def)
  qed
qed

lemma number_body_value:
  assumes "0 \<le> M"
  shows "digits_rat (int_string (M div 10 ^ k))
         + digits_rat (if k = 0 then [] else pad k (M mod 10 ^ k))
           / 10 ^ length (if k = 0 then [] else pad k (M mod 10 ^ k))
         = of_int M / 10 ^ k"
proof -
  have d: "0 \<le> M div 10 ^ k" using assms by (simp add: pos_imp_zdiv_nonneg_iff)
  have m: "0 \<le> M mod 10 ^ k" "M mod 10 ^ k < 10 ^ k" by simp_all
  have "(of_int M :: rat) = of_int (M div 10 ^ k) * 10 ^ k + of_int (M mod 10 ^ k)"
  proof -
    have "M = (M div 10 ^ k) * 10 ^ k + M mod 10 ^ k"
      by (rule div_mult_mod_eq [symmetric])
    then have "(of_int M :: rat) = of_int ((M div 10 ^ k) * 10 ^ k + M mod 10 ^ k)" by simp
    then show ?thesis by simp
  qed
  then have e: "(of_int M :: rat) / 10 ^ k = of_int (M div 10 ^ k) + of_int (M mod 10 ^ k) / 10 ^ k"
    by (simp add: field_simps)
  show ?thesis
  proof (cases "k = 0")
    case True
    then show ?thesis using assms by (simp add: digits_rat_int_string digits_rat_Nil)
  next
    case False
    then show ?thesis using d m e
      by (simp add: digits_rat_int_string digits_rat_pad)
  qed
qed


lemma number_body_Cons:
  "0 \<le> M \<Longrightarrow> \<exists>c cs. number_body M k = c # cs \<and> is_digit c"
proof -
  obtain c cs where e: "int_string (M div 10 ^ k) = c # cs"
    using int_string_nonempty by (cases "int_string (M div 10 ^ k)") auto
  then have "is_digit c" using int_string_digits [of "M div 10 ^ k"] by simp
  then show ?thesis using e by (simp add: number_body_def)
qed

lemma parse_number_common:
  assumes "0 \<le> M" and "terminator rest"
  shows "(let ip = takeWhile is_digit (number_body M k @ rest)
          in if ip = [] \<or> (1 < length ip \<and> hd ip = CHR ''0'') then None
             else
               (case fraction_part (dropWhile is_digit (number_body M k @ rest)) of
                  None \<Rightarrow> None
                | Some (fp, s3) \<Rightarrow>
                    (case exponent_part s3 of
                       None \<Rightarrow> None
                     | Some (e, s4) \<Rightarrow>
                         (let m = (digits_rat ip + digits_rat fp / 10 ^ length fp) * e
                          in Some (if neg then - m else m, s4)))))
         = Some (if neg then - (of_int M / 10 ^ k) else of_int M / 10 ^ k, rest)"
proof -
  have d: "0 \<le> M div 10 ^ k" using assms(1) by (simp add: pos_imp_zdiv_nonneg_iff)
  have z: "\<not> (1 < length (int_string (M div 10 ^ k)) \<and> hd (int_string (M div 10 ^ k)) = CHR ''0'')"
    using length_int_string_one [OF d] hd_int_string [of "M div 10 ^ k"] by blast
  show ?thesis
    using z int_string_nonempty [of "M div 10 ^ k"]
    by (simp only: number_body_scan [OF assms] Let_def exponent_part_terminator [OF assms(2)]
        number_body_value [OF assms(1)] option.case prod.case if_False mult_1_right simp_thms)
qed

lemma parse_number_body:
  assumes "0 \<le> M" and "terminator rest"
  shows "parse_number (number_body M k @ rest) = Some (of_int M / 10 ^ k, rest)"
proof -
  obtain c cs where e: "number_body M k = c # cs" and c: "is_digit c"
    using number_body_Cons [OF assms(1)] by blast
  have "c \<noteq> CHR ''-''" using is_digit_not_special(1) [OF c] .
  then have "parse_number (number_body M k @ rest)
    = (let ip = takeWhile is_digit (number_body M k @ rest)
          in if ip = [] \<or> (1 < length ip \<and> hd ip = CHR ''0'') then None
             else
               (case fraction_part (dropWhile is_digit (number_body M k @ rest)) of
                  None \<Rightarrow> None
                | Some (fp, s3) \<Rightarrow>
                    (case exponent_part s3 of
                       None \<Rightarrow> None
                     | Some (e, s4) \<Rightarrow>
                         (let m = (digits_rat ip + digits_rat fp / 10 ^ length fp) * e
                          in Some (if False then - m else m, s4)))))"
    unfolding parse_number_def e by simp
  then show ?thesis using parse_number_common [OF assms, of k False] by simp
qed

lemma parse_number_minus_body:
  assumes "0 \<le> M" and "terminator rest"
  shows "parse_number (CHR ''-'' # number_body M k @ rest) = Some (- (of_int M / 10 ^ k), rest)"
proof -
  have "parse_number (CHR ''-'' # number_body M k @ rest)
    = (let ip = takeWhile is_digit (number_body M k @ rest)
          in if ip = [] \<or> (1 < length ip \<and> hd ip = CHR ''0'') then None
             else
               (case fraction_part (dropWhile is_digit (number_body M k @ rest)) of
                  None \<Rightarrow> None
                | Some (fp, s3) \<Rightarrow>
                    (case exponent_part s3 of
                       None \<Rightarrow> None
                     | Some (e, s4) \<Rightarrow>
                         (let m = (digits_rat ip + digits_rat fp / 10 ^ length fp) * e
                          in Some (if True then - m else m, s4)))))"
    unfolding parse_number_def by simp
  then show ?thesis using parse_number_common [OF assms, of k True] by simp
qed

lemma Number_toString_body:
  assumes "fraction_digits 1100 0 \<bar>r\<bar> = Some k"
  shows "Number_toString r
         = (if r < 0 then ''-'' else []) @ number_body \<lfloor>\<bar>r\<bar> * 10 ^ k\<rfloor> k"
    and "of_int \<lfloor>\<bar>r\<bar> * 10 ^ k\<rfloor> / 10 ^ k = \<bar>r\<bar>"
    and "0 \<le> \<lfloor>\<bar>r\<bar> * 10 ^ k\<rfloor>"
proof -
  show "Number_toString r = (if r < 0 then ''-'' else []) @ number_body \<lfloor>\<bar>r\<bar> * 10 ^ k\<rfloor> k"
    using assms by (simp add: Number_toString_def number_body_def Let_def)
  have "is_int_rat (\<bar>r\<bar> * 10 ^ k)" using fraction_digits_Some [OF assms] by simp
  then have f: "of_int \<lfloor>\<bar>r\<bar> * 10 ^ k\<rfloor> = \<bar>r\<bar> * 10 ^ k"
    unfolding is_int_rat_def .
  show "of_int \<lfloor>\<bar>r\<bar> * 10 ^ k\<rfloor> / 10 ^ k = \<bar>r\<bar>"
    unfolding f by simp
  show "0 \<le> \<lfloor>\<bar>r\<bar> * 10 ^ k\<rfloor>" by simp
qed

lemma parse_number_toString:
  assumes "fraction_digits 1100 0 \<bar>r\<bar> = Some k" and "terminator rest"
  shows "parse_number (Number_toString r @ rest) = Some (r, rest)"
proof (cases "r < 0")
  case True
  then show ?thesis
    using Number_toString_body [OF assms(1)]
      parse_number_minus_body [OF Number_toString_body(3) [OF assms(1)] assms(2), of k]
    by simp
next
  case False
  then show ?thesis
    using Number_toString_body [OF assms(1)]
      parse_number_body [OF Number_toString_body(3) [OF assms(1)] assms(2), of k]
    by simp
qed


subsection \<open>Strings\<close>

lemma hex_of_hex_char: "hex_of (hex_char n) = Some (n mod 16)"
proof -
  have b: "0 \<le> n mod 16" "n mod 16 < 16" by simp_all
  show ?thesis
  proof (cases "n mod 16 < 10")
    case True
    then have "(48 + n mod 16) mod 256 = 48 + n mod 16" using b by simp
    then show ?thesis using True b by (simp add: hex_of_def hex_char_def Let_def)
  next
    case False
    then have "(87 + n mod 16) mod 256 = 87 + n mod 16" using b by simp
    then show ?thesis using False b by (simp add: hex_of_def hex_char_def Let_def)
  qed
qed

lemma hex_of_zero: "hex_of (CHR ''0'') = Some 0"
  by (simp add: hex_of_def)

lemma hex4_low:
  assumes "0 \<le> n" "n < 256"
  shows "hex4 (CHR ''0'') (CHR ''0'') (hex_char (n div 16)) (hex_char n) = Some n"
proof -
  have "n div 16 < 16" using assms by simp
  moreover have "0 \<le> n div 16" using assms by simp
  ultimately have "(n div 16) mod 16 = n div 16" by simp
  then show ?thesis
    by (simp add: hex4_def hex_of_hex_char hex_of_zero)
qed

lemma parse_string_escape_char:
  "parse_string (escape_char c @ tail) = cons_result c (parse_string tail)"
proof -
  consider (quote) "c = CHR 0x22" | (bs) "c = CHR 0x5C" | (b) "c = CHR 0x08"
    | (f) "c = CHR 0x0C" | (n) "c = CHR 0x0A" | (r) "c = CHR 0x0D" | (t) "c = CHR 0x09"
    | (ctl) "c \<notin> {CHR 0x22, CHR 0x5C, CHR 0x08, CHR 0x0C, CHR 0x0A, CHR 0x0D, CHR 0x09}"
        "(of_char c :: int) < 32"
    | (plain) "c \<notin> {CHR 0x22, CHR 0x5C, CHR 0x08, CHR 0x0C, CHR 0x0A, CHR 0x0D, CHR 0x09}"
        "\<not> (of_char c :: int) < 32"
    by blast
  then show ?thesis
  proof cases
    case ctl
    have "(of_char c :: int) = int (of_char c)" by (simp only: of_nat_of_char)
    then have n: "0 \<le> (of_char c :: int)" "(of_char c :: int) < 256"
      using ctl(2) by simp_all
    have "escape_char c = [CHR 0x5C, CHR ''u'', CHR ''0'', CHR ''0'',
             hex_char (of_char c div 16), hex_char (of_char c)]"
      using ctl by (simp add: escape_char_def)
    then show ?thesis using n
      by (simp add: hex4_low)
  next
    case plain
    then show ?thesis by (simp add: escape_char_def)
  qed (simp_all add: escape_char_def unescape_def)
qed

lemma parse_string_quoted:
  "parse_string (concat (map escape_char s) @ CHR 0x22 # rest) = Some (s, rest)"
  by (induction s) (simp_all add: parse_string_escape_char cons_result_def)


subsection \<open>Values\<close>

lemma skip_ws_Cons: "\<not> is_json_ws c \<Longrightarrow> skip_ws (c # s) = c # s"
  by (simp add: skip_ws_def)

lemma skip_ws_terminator: "terminator rest \<Longrightarrow> skip_ws rest = rest"
  by (cases rest) (auto simp: terminator_def skip_ws_def is_json_ws_def)

lemma opener_digit: "is_digit c \<Longrightarrow> opener c"
  using is_digit_not_special(6,7,8,15) by (simp add: opener_def)

lemma Number_toString_Cons:
  assumes "fraction_digits 1100 0 \<bar>r\<bar> = Some k"
  shows "\<exists>c cs. Number_toString r = c # cs \<and> (is_digit c \<or> c = CHR ''-'')"
proof -
  obtain c cs where "number_body \<lfloor>\<bar>r\<bar> * 10 ^ k\<rfloor> k = c # cs" "is_digit c"
    using number_body_Cons [OF Number_toString_body(3) [OF assms]] by blast
  then show ?thesis using Number_toString_body(1) [OF assms] by auto
qed

lemma stringify_Cons:
  "printable v \<Longrightarrow> \<exists>c cs. JSON_stringify v = c # cs \<and> opener c"
proof (cases v)
  case (JNum r)
  assume "printable v"
  then obtain k where "fraction_digits 1100 0 \<bar>r\<bar> = Some k" using JNum by auto
  from Number_toString_Cons [OF this] obtain c cs where
    "Number_toString r = c # cs" "is_digit c \<or> c = CHR ''-''" by blast
  moreover have "opener (CHR ''-'')" by (simp add: opener_def is_json_ws_def)
  ultimately show ?thesis using JNum opener_digit by auto
qed (auto simp: opener_def is_json_ws_def QuoteJSONString_def)

lemma parse_value_number:
  assumes "s = c # cs" and "is_digit c \<or> c = CHR ''-''"
  shows "parse_value (Suc n) s
         = (case parse_number s of None \<Rightarrow> None | Some (x, r1) \<Rightarrow> Some (JNum x, r1))"
proof -
  have ws: "\<not> is_json_ws c" using assms(2) is_digit_not_special(15) [of c]
    by (auto simp: is_json_ws_def)
  have ne: "c \<noteq> CHR ''{''" "c \<noteq> CHR ''[''" "c \<noteq> CHR 0x22" "c \<noteq> CHR ''n''" "c \<noteq> CHR ''t''"
    "c \<noteq> CHR ''f''"
    using assms(2) is_digit_not_special(9,10,11,12,13,14) [of c] by auto
  show ?thesis
    unfolding assms(1) using ne by (simp add: skip_ws_Cons [OF ws])
qed

lemma add_member_fresh: "k \<notin> fst ` set acc \<Longrightarrow> add_member k v acc = acc @ [(k, v)]"
  by (induction acc) auto


lemma parse_value_string:
  "parse_value (Suc n) (QuoteJSONString s @ rest) = Some (JStr s, rest)"
  by (simp add: QuoteJSONString_def skip_ws_def is_json_ws_def parse_string_quoted)

lemma parse_value_literals:
  "parse_value (Suc n) (''null'' @ rest) = Some (JNull, rest)"
  "parse_value (Suc n) (''true'' @ rest) = Some (JBool True, rest)"
  "parse_value (Suc n) (''false'' @ rest) = Some (JBool False, rest)"
  by (simp_all add: skip_ws_def is_json_ws_def)

lemma parse_value_open_array:
  assumes "opener c"
  shows "parse_value (Suc n) (CHR ''['' # c # s) = parse_elems n [] (c # s)"
  using assms by (simp add: skip_ws_def is_json_ws_def opener_def)

lemma parse_value_open_object:
  assumes "opener c"
  shows "parse_value (Suc n) (CHR ''{'' # c # s) = parse_members n [] (c # s)"
  using assms by (simp add: skip_ws_def is_json_ws_def opener_def)

lemma parse_value_empty:
  "parse_value (Suc n) (''[]'' @ rest) = Some (JArr [], rest)"
  "parse_value (Suc n) (''{}'' @ rest) = Some (JObj [], rest)"
  by (simp_all add: skip_ws_def is_json_ws_def)

lemma parse_elems_step:
  assumes "parse_value n s = Some (v, c # r)"
  shows "c = CHR '','' \<Longrightarrow> parse_elems (Suc n) acc s = parse_elems n (acc @ [v]) r"
    and "c = CHR '']'' \<Longrightarrow> parse_elems (Suc n) acc s = Some (JArr (acc @ [v]), r)"
  using assms by (simp_all add: skip_ws_def is_json_ws_def)

lemma parse_members_step:
  assumes "parse_value n s = Some (v, c # r)"
  shows "c = CHR '','' \<Longrightarrow>
           parse_members (Suc n) acc (QuoteJSONString k @ CHR '':'' # s)
           = parse_members n (add_member k v acc) r"
    and "c = CHR ''}'' \<Longrightarrow>
           parse_members (Suc n) acc (QuoteJSONString k @ CHR '':'' # s)
           = Some (JObj (add_member k v acc), r)"
  using assms
  by (simp_all add: QuoteJSONString_def skip_ws_def is_json_ws_def parse_string_quoted)


lemma terminator_Cons:
  "terminator (CHR '','' # s)" "terminator (CHR '']'' # s)" "terminator (CHR ''}'' # s)"
  by (simp_all add: terminator_def)

lemma parse_stringify:
  "printable v \<Longrightarrow> length (JSON_stringify v) \<le> n \<Longrightarrow> terminator rest
     \<Longrightarrow> parse_value n (JSON_stringify v @ rest) = Some (v, rest)"
  "xs \<noteq> [] \<Longrightarrow> printable_elems xs \<Longrightarrow> 1 + length (stringify_elems xs) \<le> n
     \<Longrightarrow> parse_elems n acc (stringify_elems xs @ CHR '']'' # rest) = Some (JArr (acc @ xs), rest)"
  "ps \<noteq> [] \<Longrightarrow> printable_members ps \<Longrightarrow> distinct (map fst (macc @ ps))
     \<Longrightarrow> 1 + length (stringify_members ps) \<le> n
     \<Longrightarrow> parse_members n macc (stringify_members ps @ CHR ''}'' # rest)
         = Some (JObj (macc @ ps), rest)"
proof (induction v and xs and ps arbitrary: n rest and n acc rest and n macc rest
    rule: JSON_stringify_stringify_elems_stringify_members.induct)
  case 1
  then obtain n' where "n = Suc n'" by (cases n) auto
  then show ?case using parse_value_literals(1) by simp
next
  case (2 b)
  then obtain n' where "n = Suc n'" by (cases n) (auto split: if_splits)
  then show ?case using parse_value_literals(2,3) by (cases b) simp_all
next
  case (3 r)
  then obtain k where k: "fraction_digits 1100 0 \<bar>r\<bar> = Some k" by auto
  from Number_toString_Cons [OF k] obtain c cs where
    e: "Number_toString r = c # cs" and c: "is_digit c \<or> c = CHR ''-''" by blast
  from "3.prems"(2) e obtain n' where n: "n = Suc n'" by (cases n) auto
  have "Number_toString r @ rest = c # (cs @ rest)" using e by simp
  from parse_value_number [OF this c, of n']
  show ?case using parse_number_toString [OF k "3.prems"(3)] n by simp
next
  case (4 s)
  then obtain n' where "n = Suc n'" by (cases n) (auto simp: QuoteJSONString_def)
  then show ?case using parse_value_string by simp
next
  case (5 xs)
  from "5.prems"(2) obtain n' where n: "n = Suc n'" by (cases n) auto
  show ?case
  proof (cases xs)
    case Nil
    then show ?thesis using n parse_value_empty(1) [of n' rest] by simp
  next
    case (Cons x xs')
    then have px: "printable x" using "5.prems"(1) by simp
    from stringify_Cons [OF px] obtain c cs where
      e: "JSON_stringify x = c # cs" and o: "opener c" by blast
    then obtain t where t: "stringify_elems xs = c # t"
      using Cons by (cases xs') auto
    have "parse_value n (JSON_stringify (JArr xs) @ rest)
          = parse_elems n' [] (stringify_elems xs @ CHR '']'' # rest)"
      using parse_value_open_array [OF o, of n' "t @ CHR '']'' # rest"] n t by simp
    also have "\<dots> = Some (JArr ([] @ xs), rest)"
      using Cons "5.prems" n by (intro "5.IH") simp_all
    finally show ?thesis by simp
  qed
next
  case (6 ps)
  from "6.prems"(2) obtain n' where n: "n = Suc n'" by (cases n) auto
  show ?case
  proof (cases ps)
    case Nil
    then show ?thesis using n parse_value_empty(2) [of n' rest] by simp
  next
    case (Cons p ps')
    then obtain t where t: "stringify_members ps = CHR 0x22 # t"
      by (cases ps') (auto simp: QuoteJSONString_def)
    have o: "opener (CHR 0x22)" by (simp add: opener_def is_json_ws_def)
    have "parse_value n (JSON_stringify (JObj ps) @ rest)
          = parse_members n' [] (stringify_members ps @ CHR ''}'' # rest)"
      using parse_value_open_object [OF o, of n' "t @ CHR ''}'' # rest"] n t by simp
    also have "\<dots> = Some (JObj ([] @ ps), rest)"
      using Cons "6.prems" n by (intro "6.IH") simp_all
    finally show ?thesis by simp
  qed
next
  case 7
  then show ?case by simp
next
  case (8 x)
  from "8.prems"(3) obtain n' where n: "n = Suc n'" by (cases n) auto
  have "parse_value n' (JSON_stringify x @ CHR '']'' # rest) = Some (x, CHR '']'' # rest)"
    using "8.prems" n by (intro "8.IH") (simp_all add: terminator_Cons)
  from parse_elems_step(2) [OF this, of acc] show ?case using n by simp
next
  case (9 x y ys)
  from "9.prems"(3) obtain n' where n: "n = Suc n'" by (cases n) auto
  let ?tail = "stringify_elems (y # ys) @ CHR '']'' # rest"
  have "parse_value n' (JSON_stringify x @ CHR '','' # ?tail) = Some (x, CHR '','' # ?tail)"
    using "9.prems" n by (intro "9.IH"(1)) (simp_all add: terminator_Cons)
  from parse_elems_step(1) [OF this, of acc]
  have "parse_elems n acc (stringify_elems (x # y # ys) @ CHR '']'' # rest)
        = parse_elems n' (acc @ [x]) ?tail"
    using n by simp
  also have "\<dots> = Some (JArr ((acc @ [x]) @ y # ys), rest)"
    using "9.prems" n by (intro "9.IH"(2)) simp_all
  finally show ?case by simp
next
  case 10
  then show ?case by simp
next
  case (11 p)
  from "11.prems"(4) obtain n' where n: "n = Suc n'" by (cases n) auto
  have f: "fst p \<notin> fst ` set macc" using "11.prems"(3) by auto
  have "parse_value n' (JSON_stringify (snd p) @ CHR ''}'' # rest) = Some (snd p, CHR ''}'' # rest)"
    using "11.prems" n by (intro "11.IH") (simp_all add: terminator_Cons)
  from parse_members_step(2) [OF this, of macc "fst p"]
  show ?case using n add_member_fresh [OF f, of "snd p"] by simp
next
  case (12 p q ps)
  from "12.prems"(4) obtain n' where n: "n = Suc n'" by (cases n) auto
  have f: "fst p \<notin> fst ` set macc" using "12.prems"(3) by auto
  let ?tail = "stringify_members (q # ps) @ CHR ''}'' # rest"
  have "parse_value n' (JSON_stringify (snd p) @ CHR '','' # ?tail) = Some (snd p, CHR '','' # ?tail)"
    using "12.prems" n by (intro "12.IH"(1)) (simp_all add: terminator_Cons)
  from parse_members_step(1) [OF this, of macc "fst p"]
  have "parse_members n macc (stringify_members (p # q # ps) @ CHR ''}'' # rest)
        = parse_members n' (macc @ [p]) ?tail"
    using n add_member_fresh [OF f, of "snd p"] by simp
  also have "\<dots> = Some (JObj ((macc @ [p]) @ q # ps), rest)"
    using "12.prems" n by (intro "12.IH"(2)) simp_all
  finally show ?case by simp
qed

lemma JSON_parse_stringify:
  "printable v \<Longrightarrow> JSON_parse (JSON_stringify v) = Some v"
  using parse_stringify(1) [of v "2 * length (JSON_stringify v) + 2" "[]"]
  by (simp add: JSON_parse_def terminator_def skip_ws_def)

section \<open>The JSON round trip of a document\<close>

lemma those_map_Some:
  "(\<And>x. x \<in> set xs \<Longrightarrow> f x = Some (g x)) \<Longrightarrow> those (map f xs) = Some (map g xs)"
  by (induction xs) simp_all

lemma printable_elems_iff: "printable_elems xs \<longleftrightarrow> (\<forall>x \<in> set xs. printable x)"
  by (induction xs) auto

lemma printable_members_iff: "printable_members ps \<longleftrightarrow> (\<forall>p \<in> set ps. printable (snd p))"
  by (induction ps) auto

lemma fraction_digits_int: "is_int_rat r \<Longrightarrow> fraction_digits f k r = Some k"
  by (cases f) simp_all

lemma is_int_rat_of_int: "is_int_rat (of_int n)" "is_int_rat \<bar>of_int n\<bar>"
proof -
  show "is_int_rat (of_int n)" by (simp add: is_int_rat_def)
  have "\<bar>rat_of_int n\<bar> = of_int \<bar>n\<bar>" by simp
  then show "is_int_rat \<bar>of_int n\<bar>" by (simp only: is_int_rat_def floor_of_int)
qed

lemma printable_activity: "printable (activity_json a)"
  by (simp add: activity_json_def)

lemma printable_day: "printable (day_json d)"
  by (simp add: day_json_def printable_elems_iff printable_activity
      fraction_digits_int [OF is_int_rat_of_int(2)])

lemma printable_category:
  assumes "distinct (map fst c)" and "list_all (\<lambda>q. finite_amount (snd q)) c"
  shows "printable (category_json c)"
proof -
  have "printable (number_json (snd q))" if "q \<in> set c" for q
  proof -
    from that assms(2) have "finite_amount (snd q)" by (simp add: list_all_iff)
    then show ?thesis by (cases "snd q") (simp_all add: finite_amount_def)
  qed
  then show ?thesis using assms(1)
    by (simp add: category_json_def printable_members_iff comp_def)
qed

lemma printable_toJSON:
  assumes "well_formed doc"
  shows "printable (toJSON doc)"
proof -
  let ?cs = "categories (budget doc)"
  from assms have d: "distinct (map fst ?cs)" and n: "''currency'' \<notin> set (map fst ?cs)"
    and c: "\<And>p. p \<in> set ?cs \<Longrightarrow>
              distinct (map fst (snd p)) \<and> list_all (\<lambda>q. finite_amount (snd q)) (snd p)"
    by (simp_all add: well_formed_def Let_def list_all_iff)
  have "printable (budget_json (budget doc))"
    using d n c by (simp add: budget_json_def printable_members_iff comp_def printable_category)
  then show ?thesis
    by (simp add: toJSON_def printable_elems_iff printable_day)
qed

lemma activity_of_json: "activity_of (activity_json a) = Some a"
  by (simp add: activity_of_def activity_json_def)

lemma day_of_json: "day_of (day_json d) = Some d"
proof -
  have "those (map activity_of (map activity_json (activities d))) = Some (activities d)"
    using those_map_Some [of "map activity_json (activities d)" activity_of]
    by (simp add: comp_def activity_of_json those_map_Some [of _ _ id, simplified])
  then show ?thesis
    by (simp add: day_of_def day_json_def is_int_rat_of_int)
qed


lemma those_decode:
  "(\<And>x. x \<in> set xs \<Longrightarrow> f (g x) = Some x) \<Longrightarrow> those (map f (map g xs)) = Some xs"
  by (induction xs) simp_all

lemma category_of_json:
  assumes "list_all (\<lambda>q. finite_amount (snd q)) c"
  shows "category_of (k, category_json c) = Some (k, c)"
proof -
  have "amount_of (fst q, number_json (snd q)) = Some q" if "q \<in> set c" for q
  proof -
    from that assms have "finite_amount (snd q)" by (simp add: list_all_iff)
    then show ?thesis by (cases q; cases "snd q") (simp_all add: finite_amount_def amount_of_def)
  qed
  then have "those (map amount_of (map (\<lambda>p. (fst p, number_json (snd p))) c)) = Some c"
    by (rule those_decode)
  then show ?thesis by (simp add: category_of_def category_json_def)
qed

lemma budget_of_json:
  assumes "well_formed doc"
  shows "budget_of (budget_json (budget doc)) = Some (budget doc)"
proof -
  let ?cs = "categories (budget doc)"
  let ?ms = "map (\<lambda>p. (fst p, category_json (snd p))) ?cs"
  from assms have n: "''currency'' \<notin> set (map fst ?cs)"
    and c: "\<And>p. p \<in> set ?cs \<Longrightarrow> list_all (\<lambda>q. finite_amount (snd q)) (snd p)"
    by (simp_all add: well_formed_def Let_def list_all_iff)
  have f: "filter (\<lambda>p. fst p \<noteq> ''currency'') ?ms = ?ms"
    using n by (force simp: filter_id_conv)
  have "category_of (fst p, category_json (snd p)) = Some p" if "p \<in> set ?cs" for p
    using category_of_json [OF c [OF that], of "fst p"] by simp
  then have "those (map category_of ?ms) = Some ?cs"
    by (rule those_decode)
  then show ?thesis
    by (simp add: budget_of_def budget_json_def f)
qed

lemma fromJSON_toJSON:
  assumes "well_formed doc"
  shows "fromJSON (toJSON doc) = Some doc"
proof -
  have "those (map day_of (map day_json (itinerary doc))) = Some (itinerary doc)"
    by (rule those_decode) (rule day_of_json)
  then show ?thesis
    using budget_of_json [OF assms]
    by (simp add: fromJSON_def toJSON_def)
qed

lemma serialize_nonempty: "serialize doc \<noteq> []"
  by (simp add: serialize_def toJSON_def)

text \<open>
  Claim C8. For every well-formed document, deserializing its serialization yields the
  document; so the record that \<^verbatim>\<open>saveItinerary\<close> writes for it, delivered to the
  snapshot listener, makes the document the local state and triggers no save.
\<close>

theorem json_round_trip:
  assumes "well_formed doc"
  shows "deserialize (serialize doc) = Some doc
         \<and> (uid \<noteq> [] \<longrightarrow>
              (\<exists>r. saveItinerary appId True (Some uid) now doc = Some r
                 \<and> onSnapshot_listener JSON_parse defaultDoc (Exists (Some (itineraryData r))) prev
                   = \<lparr>tripDetails = Document doc, saved = []\<rparr>))"
proof -
  have p: "JSON_parse (serialize doc) = Some (toJSON doc)"
    using JSON_parse_stringify [OF printable_toJSON [OF assms]] by (simp add: serialize_def)
  have f: "fromJSON (toJSON doc) = Some doc" by (rule fromJSON_toJSON [OF assms])
  have "deserialize (serialize doc) = Some doc"
    using p f by (simp add: deserialize_def)
  moreover have "onSnapshot_listener JSON_parse defaultDoc (Exists (Some (serialize doc))) prev
                 = \<lparr>tripDetails = Document doc, saved = []\<rparr>"
    using p f serialize_nonempty [of doc] by (simp add: onSnapshot_listener_def as_state_def)
  ultimately show ?thesis by (simp add: saveItinerary_def)
qed

text \<open>The default document of 2026-11-03 is well-formed.\<close>

theorem json_round_trip_witness:
  "well_formed (defaultItinerary 1793700000000 1793700000000 1793700000000 ''d1'' ''a1'')
   \<and> deserialize (serialize
         (defaultItinerary 1793700000000 1793700000000 1793700000000 ''d1'' ''a1''))
     = Some (defaultItinerary 1793700000000 1793700000000 1793700000000 ''d1'' ''a1'')"
proof -
  have i: "is_int_rat 600" "is_int_rat 500" "is_int_rat 400" "is_int_rat 100" "is_int_rat 0"
    by (simp_all add: is_int_rat_def)
  have w: "well_formed (defaultItinerary 1793700000000 1793700000000 1793700000000 ''d1'' ''a1'')"
    by (simp add: well_formed_def defaultItinerary_def finite_amount_def
        fraction_digits_int [OF i(1)] fraction_digits_int [OF i(2)] fraction_digits_int [OF i(3)]
        fraction_digits_int [OF i(4)] fraction_digits_int [OF i(5)])
  show ?thesis using json_round_trip [OF w] w by simp
qed

end
